theory Spec2Isabelle
  imports Complex_Main "HOL-Library.Sublist" "HOL-Library.Word" "HOL-Library.AList"
    "HOL-Library.List_Lexorder" "HOL-Library.Char_ord"
begin

section \<open>Shard planning\<close>

text \<open>
  Both upload methods of \<^verbatim>\<open>AtlasProject\<close> begin with
  \<^verbatim>\<open>shard_size = min(shard_size, 5000)\<close>, enumerate the shard offsets with
  \<^verbatim>\<open>range(0, len(data), shard_size)\<close> and cut the shard out of the data inside
  \<^verbatim>\<open>send_request(i)\<close> with the slice \<^verbatim>\<open>data[i : i + shard_size]\<close>.
\<close>

definition effective_shard_size :: "int \<Rightarrow> int" where
  "effective_shard_size shard_size = min shard_size 5000"

text \<open>
  \<^verbatim>\<open>range(i, n, step)\<close> for a positive step. Python raises \<^verbatim>\<open>ValueError\<close> for a zero
  step and yields nothing for a negative one; the callers below decide those two cases
  before they come here, so the zero step is mapped to the empty list only to keep the
  function total.
\<close>

function py_range :: "nat \<Rightarrow> nat \<Rightarrow> nat \<Rightarrow> nat list" where
  "py_range i n step = (if step = 0 \<or> n \<le> i then [] else i # py_range (i + step) n step)"
  by pat_completeness auto
termination
  by (relation "measure (\<lambda>(i, n, step). n - i)") auto

declare py_range.simps [simp del]

text \<open>The slice \<^verbatim>\<open>data[i : i + shard_size]\<close> for non-negative \<^verbatim>\<open>i\<close> and \<^verbatim>\<open>shard_size\<close>.\<close>

definition data_shard :: "'a list \<Rightarrow> nat \<Rightarrow> nat \<Rightarrow> 'a list" where
  "data_shard data shard_size i = take shard_size (drop i data)"

text \<open>
  The shard plan of a call: one half-open index range per submitted request, in the
  order of submission, each range being the offset together with the end of the slice
  that \<^verbatim>\<open>send_request\<close> really takes.
\<close>

definition shard_plan :: "'a list \<Rightarrow> int \<Rightarrow> (nat \<times> nat) list" where
  "shard_plan data shard_size =
     (let s = nat (effective_shard_size shard_size) in
      map (\<lambda>i. (i, i + length (data_shard data s i))) (py_range 0 (length data) s))"

section \<open>Errors\<close>

text \<open>
  Every exception the modelled code can raise, named after the Python exception class
  and the place that raises it.
\<close>

datatype error =
    ValueError_IdTooLong
      \<comment> \<open>\<^verbatim>\<open>ValueError\<close>: the id field is longer than 36 characters\<close>
  | KeyError_IdField string
      \<comment> \<open>\<^verbatim>\<open>KeyError\<close>: \<^verbatim>\<open>datum[project.id_field]\<close>, evaluated for the message of the
          \<^verbatim>\<open>ValueError\<close> about a missing id field, on a datum without that field\<close>
  | ValueError_KeyMismatch "string list" "string list"
      \<comment> \<open>\<^verbatim>\<open>ValueError\<close>: all metadata must have the same keys\<close>
  | ValueError_ReservedKey
      \<comment> \<open>\<^verbatim>\<open>ValueError\<close>: metadata fields cannot start with an underscore\<close>
  | ValueError_Timestamp string
      \<comment> \<open>\<^verbatim>\<open>ValueError\<close>: a timestamp key that is not an ISO8601 string\<close>
  | ValueError_EmptyString string
      \<comment> \<open>\<^verbatim>\<open>ValueError\<close>: an empty string while replacement is switched off\<close>
  | Exception_NotFlat string
      \<comment> \<open>\<^verbatim>\<open>Exception\<close>: a value that is not a string, float or int\<close>
  | ValueError_Modality
      \<comment> \<open>\<^verbatim>\<open>ValueError\<close>: the project has the wrong modality\<close>
  | Exception_Indexing
      \<comment> \<open>\<^verbatim>\<open>Exception\<close>: project is currently indexing and cannot ingest new datums\<close>
  | Exception_ShardTooLarge
      \<comment> \<open>\<^verbatim>\<open>Exception\<close>: a shard serialises to more than 8000000 bytes\<close>
  | RuntimeError_HighLoad
      \<comment> \<open>\<^verbatim>\<open>RuntimeError\<close>: Atlas is under high load\<close>
  | TypeError_NotIterable
      \<comment> \<open>\<^verbatim>\<open>TypeError\<close>: \<^verbatim>\<open>in\<close> applied to a JSON number, boolean or null\<close>
  | TypeError_LenOfInt
      \<comment> \<open>\<^verbatim>\<open>TypeError\<close>: \<^verbatim>\<open>len(failed)\<close> with the integer tally \<^verbatim>\<open>failed\<close>\<close>
  | ZeroDivisionError
      \<comment> \<open>\<^verbatim>\<open>ZeroDivisionError\<close>: \<^verbatim>\<open>len(data) // shard_size\<close> or the failure fraction\<close>
  | ValueError_RangeStep
      \<comment> \<open>\<^verbatim>\<open>ValueError\<close>: \<^verbatim>\<open>range()\<close> with step zero\<close>
  | JSONDecodeError
      \<comment> \<open>\<^verbatim>\<open>JSONDecodeError\<close>: \<^verbatim>\<open>response.json()\<close> outside any handler\<close>
  | TransportError
      \<comment> \<open>any exception of \<^verbatim>\<open>requests.post\<close> itself\<close>

section \<open>Metadata validation\<close>

subsection \<open>Records\<close>

text \<open>
  A metadata value as Python sees it. \<^verbatim>\<open>isinstance(v, (str, float, int))\<close> holds for
  strings, floats, ints and (as a subclass of int) booleans. A float is carried as its
  IEEE-754 bit pattern; nothing below computes with it.
\<close>

datatype pyval =
    VStr string
  | VInt int
  | VFloat "64 word"
  | VBool bool
  | VNone
  | VList "pyval list"

fun is_str_float_int :: "pyval \<Rightarrow> bool" where
  "is_str_float_int (VStr _) = True"
| "is_str_float_int (VInt _) = True"
| "is_str_float_int (VFloat _) = True"
| "is_str_float_int (VBool _) = True"
| "is_str_float_int _ = False"

text \<open>\<^verbatim>\<open>isinstance(v, str) and len(v) == 0\<close>\<close>

fun is_empty_str :: "pyval \<Rightarrow> bool" where
  "is_empty_str (VStr s) = (s = [])"
| "is_empty_str _ = False"

text \<open>
  A datum is a Python dict with string keys: an association list in insertion order
  with distinct keys. \<^verbatim>\<open>datum[key] = v\<close> is \<^const>\<open>AList.update\<close>: it replaces the
  value of a key that is present where it stands and appends a new key at the end.
\<close>

type_synonym datum = "(string \<times> pyval) list"

text \<open>
  \<^verbatim>\<open>datum[key]\<close>. The validator only reads keys it has just taken from the datum, so the
  \<^verbatim>\<open>KeyError\<close> of a missing key arises at one place only, which
  \<open>check_id_field\<close> below treats on its own.
\<close>

definition getitem :: "datum \<Rightarrow> string \<Rightarrow> pyval" where
  "getitem datum key = (case map_of datum key of Some v \<Rightarrow> v | None \<Rightarrow> VNone)"

record project =
  id_field :: string
  modality :: string
  insert_update_delete_lock :: bool

subsection \<open>What the validator takes from outside the repository's sources\<close>

text \<open>
  \<^item> \<open>default_id_field\<close>: the constant \<^verbatim>\<open>ATLAS_DEFAULT_ID_FIELD\<close> of
    \<^verbatim>\<open>nomic/settings.py\<close>;
  \<^item> \<open>urandom16\<close>: the 16 random bytes that the k-th call of \<^verbatim>\<open>uuid.uuid4()\<close>
    draws, as a 128-bit integer;
  \<^item> \<open>py_repr\<close>: \<^verbatim>\<open>str(v)\<close> of a value that is not a string;
  \<^item> \<open>fromisoformat_ok\<close>: whether \<^verbatim>\<open>date.fromisoformat(s)\<close> returns (rather than
    raising \<^verbatim>\<open>ValueError\<close>).
\<close>

record validator_env =
  default_id_field :: string
  urandom16 :: "nat \<Rightarrow> 128 word"
  py_repr :: "pyval \<Rightarrow> string"
  fromisoformat_ok :: "string \<Rightarrow> bool"

fun py_str :: "validator_env \<Rightarrow> pyval \<Rightarrow> string" where
  "py_str env (VStr s) = s"
| "py_str env v = py_repr env v"

subsection \<open>\<^verbatim>\<open>str(uuid.uuid4())\<close>\<close>

text \<open>
  The standard library sets the variant and version bits of the random integer
  (\<^verbatim>\<open>int &= ~(0xc000 << 48); int |= 0x8000 << 48; int &= ~(0xf000 << 64); int |= 4 << 76\<close>)
  and prints it as 32 lower-case hexadecimal digits in groups of 8, 4, 4, 4 and 12.
\<close>

definition uuid4_int :: "128 word \<Rightarrow> 128 word" where
  "uuid4_int w =
     or (and (or (and w (not (push_bit 48 0xc000))) (push_bit 48 0x8000))
             (not (push_bit 64 0xf000)))
        (push_bit 76 4)"

definition hexdigit :: "nat \<Rightarrow> char" where
  "hexdigit n = ''0123456789abcdef'' ! (n mod 16)"

definition hex32 :: "128 word \<Rightarrow> string" where
  "hex32 w = map (\<lambda>k. hexdigit (unat (drop_bit (4 * (31 - k)) w))) [0..<32]"

definition uuid_str :: "128 word \<Rightarrow> string" where
  "uuid_str w =
     (let h = hex32 w in
      take 8 h @ ''-'' @ take 4 (drop 8 h) @ ''-'' @ take 4 (drop 12 h) @ ''-''
        @ take 4 (drop 16 h) @ ''-'' @ drop 20 h)"

definition uuid4 :: "validator_env \<Rightarrow> nat \<Rightarrow> string" where
  "uuid4 env k = uuid_str (uuid4_int (urandom16 env k))"

subsection \<open>\<^verbatim>\<open>_validate_and_correct_user_supplied_metadata\<close>\<close>

text \<open>
  The local variables of the method, and the number of identifiers drawn so far.
\<close>

record vstate =
  metadata_keys :: "string list option"
  metadata_date_keys :: "string list"
  uuids_drawn :: nat

definition vstate0 :: vstate where
  "vstate0 = \<lparr>metadata_keys = None, metadata_date_keys = [], uuids_drawn = 0\<rparr>"

text \<open>
  The first statement of the loop body: the check of the id field, which injects a
  fresh identifier into a datum that has none when the project uses the default field.
\<close>

definition check_id_field ::
  "validator_env \<Rightarrow> project \<Rightarrow> vstate \<Rightarrow> datum \<Rightarrow> error + (datum \<times> vstate)" where
  "check_id_field env proj st datum =
     (case map_of datum (id_field proj) of
        Some v \<Rightarrow>
          if length (py_str env v) > 36 then Inl ValueError_IdTooLong
          else Inr (datum, st)
      | None \<Rightarrow>
          if id_field proj = default_id_field env
          then Inr (AList.update (id_field proj) (VStr (uuid4 env (uuids_drawn st))) datum,
                    st\<lparr>uuids_drawn := uuids_drawn st + 1\<rparr>)
          else Inl (KeyError_IdField (id_field proj)))"

text \<open>
  On the first datum: \<^verbatim>\<open>metadata_keys = sorted(list(datum.keys()))\<close> and the keys whose
  value parses as a date.
\<close>

definition note_keys :: "validator_env \<Rightarrow> vstate \<Rightarrow> datum \<Rightarrow> vstate" where
  "note_keys env st datum =
     (case metadata_keys st of
        Some _ \<Rightarrow> st
      | None \<Rightarrow>
          (let ks = sort (map fst datum) in
           st\<lparr>metadata_keys := Some ks,
              metadata_date_keys :=
                metadata_date_keys st
                  @ filter (\<lambda>key. fromisoformat_ok env (py_str env (getitem datum key))) ks\<rparr>))"

text \<open>
  Inside \<^verbatim>\<open>for key in datum\<close>, the block under \<^verbatim>\<open>if project.modality == 'text'\<close>:
  an empty string is replaced by the string \<^verbatim>\<open>null\<close>, or rejected.
\<close>

definition replace_empty_string ::
  "project \<Rightarrow> bool \<Rightarrow> string \<Rightarrow> datum \<Rightarrow> datum \<times> error option" where
  "replace_empty_string proj replace key datum =
     (if modality proj = ''text'' then
        (if is_empty_str (getitem datum key) then
           (if replace then (AList.update key (VStr ''null'') datum, None)
            else (datum, Some (ValueError_EmptyString key)))
         else (datum, None))
      else (datum, None))"

text \<open>The body of \<^verbatim>\<open>for key in datum\<close> for one key.\<close>

definition check_key ::
  "validator_env \<Rightarrow> project \<Rightarrow> bool \<Rightarrow> string list \<Rightarrow> string \<Rightarrow> datum
     \<Rightarrow> datum \<times> error option" where
  "check_key env proj replace date_keys key datum =
     (if take 1 key = ''_'' then (datum, Some ValueError_ReservedKey)
      else if key \<in> set date_keys
              \<and> \<not> fromisoformat_ok env (py_str env (getitem datum key))
      then (datum, Some (ValueError_Timestamp key))
      else
        (case replace_empty_string proj replace key datum of
           (datum1, Some e) \<Rightarrow> (datum1, Some e)
         | (datum1, None) \<Rightarrow>
             if \<not> is_str_float_int (getitem datum1 key)
             then (datum1, Some (Exception_NotFlat key))
             else (datum1, None)))"

text \<open>
  \<^verbatim>\<open>for key in datum: ...\<close> over the keys still to visit. The datum is returned as the
  loop leaves it, together with the exception, if any.
\<close>

fun check_keys ::
  "validator_env \<Rightarrow> project \<Rightarrow> bool \<Rightarrow> string list \<Rightarrow> string list \<Rightarrow> datum
     \<Rightarrow> datum \<times> error option" where
  "check_keys env proj replace date_keys [] datum = (datum, None)"
| "check_keys env proj replace date_keys (key # keys) datum =
     (case check_key env proj replace date_keys key datum of
        (datum1, Some e) \<Rightarrow> (datum1, Some e)
      | (datum1, None) \<Rightarrow> check_keys env proj replace date_keys keys datum1)"

text \<open>
  One pass of \<^verbatim>\<open>for datum in data\<close>. (The tests \<^verbatim>\<open>isinstance(data, list)\<close> and
  \<^verbatim>\<open>isinstance(datum, dict)\<close> have no branch here: \<^verbatim>\<open>data: List[Dict]\<close> is a list
  of dicts.)
\<close>

definition validate_datum ::
  "validator_env \<Rightarrow> project \<Rightarrow> bool \<Rightarrow> vstate \<Rightarrow> datum \<Rightarrow> datum \<times> (error + vstate)" where
  "validate_datum env proj replace st datum =
     (case check_id_field env proj st datum of
        Inl e \<Rightarrow> (datum, Inl e)
      | Inr (datum1, st1) \<Rightarrow>
          (let st2 = note_keys env st1 datum1;
               datum_keylist = sort (map fst datum1)
           in if Some datum_keylist \<noteq> metadata_keys st2
              then (datum1, Inl (ValueError_KeyMismatch
                                   (case metadata_keys st2 of Some ks \<Rightarrow> ks | None \<Rightarrow> [])
                                   datum_keylist))
              else (case check_keys env proj replace (metadata_date_keys st2)
                           (map fst datum1) datum1 of
                      (datum2, Some e) \<Rightarrow> (datum2, Inl e)
                    | (datum2, None) \<Rightarrow> (datum2, Inr st2))))"

text \<open>
  The whole loop. The list that comes back is the caller's list as the method leaves
  it: the records are mutated in place, and an exception undoes nothing.
\<close>

fun validate_from ::
  "validator_env \<Rightarrow> project \<Rightarrow> bool \<Rightarrow> vstate \<Rightarrow> datum list
     \<Rightarrow> datum list \<times> (error + vstate)" where
  "validate_from env proj replace st [] = ([], Inr st)"
| "validate_from env proj replace st (datum # rest) =
     (case validate_datum env proj replace st datum of
        (datum', Inl e) \<Rightarrow> (datum' # rest, Inl e)
      | (datum', Inr st') \<Rightarrow>
          (case validate_from env proj replace st' rest of
             (rest', r) \<Rightarrow> (datum' # rest', r)))"

definition validate_and_correct_user_supplied_metadata ::
  "validator_env \<Rightarrow> datum list \<Rightarrow> project \<Rightarrow> bool \<Rightarrow> datum list \<times> (error + vstate)" where
  "validate_and_correct_user_supplied_metadata env data proj replace =
     validate_from env proj replace vstate0 data"

section \<open>The upload loop of \<^verbatim>\<open>add_text\<close> and \<^verbatim>\<open>add_embeddings\<close>\<close>

subsection \<open>Responses\<close>

text \<open>What \<^verbatim>\<open>response.json()\<close> can return.\<close>

datatype json =
    JNull
  | JBool bool
  | JNum int
  | JStr string
  | JArr "json list"
  | JObj "(string \<times> json) list"

text \<open>
  A response: its status code, and the parsed body, or \<open>None\<close> when
  \<^verbatim>\<open>response.json()\<close> raises \<^verbatim>\<open>JSONDecodeError\<close>.
\<close>

record response =
  status_code :: int
  json_body :: "json option"

text \<open>
  The Python expression \<^verbatim>\<open>phrase in response.json()\<close> for a string \<^verbatim>\<open>phrase\<close>:
  substring search in a string, membership in a list, key membership in a dict, and
  \<^verbatim>\<open>TypeError\<close> for anything else.
\<close>

fun py_in :: "string \<Rightarrow> json \<Rightarrow> error + bool" where
  "py_in phrase (JStr s) = Inr (sublist phrase s)"
| "py_in phrase (JArr xs) = Inr (JStr phrase \<in> set xs)"
| "py_in phrase (JObj kvs) = Inr (phrase \<in> set (map fst kvs))"
| "py_in phrase _ = Inl TypeError_NotIterable"

definition organization_limit :: string where
  "organization_limit = ''more datums exceeds your organization limit''"

definition transaction_lock :: string where
  "transaction_lock = ''Project transaction lock is held''"

definition id_conflict :: string where
  "id_conflict = ''Insert failed due to ID conflict''"

subsection \<open>The world outside\<close>

text \<open>
  \<^item> \<open>size_in_bytes\<close>: \<^verbatim>\<open>get_object_size_in_bytes\<close> of \<^verbatim>\<open>nomic/utils.py\<close>;
  \<^item> \<open>post\<close>: what \<^verbatim>\<open>requests.post\<close> does with the k-th request (k = 0, 1, ...)
    for the shard at offset i: a response, or an exception of its own;
  \<^item> \<open>sched\<close>: which of the futures in the dict \<^verbatim>\<open>futures\<close> the loop takes up next,
    as a position in the dict (modulo its size), for each step of the loop. The thread
    pool completes requests in any order, and \<^verbatim>\<open>done\<close> is a set; every order in which
    the loop can meet the futures is the run of some \<open>sched\<close>. (Not every \<open>sched\<close>
    is the run of a thread pool: a completed future that stays in the dict is met again
    in every round of the real loop, while a \<open>sched\<close> may pass it over for ever.
    What is proved for every \<open>sched\<close> holds for every order of completion.)
\<close>

record transport =
  size_in_bytes :: "datum list \<Rightarrow> nat"
  post :: "nat \<Rightarrow> nat \<Rightarrow> error + response"
  sched :: "nat \<Rightarrow> nat"

text \<open>
  A future is known by the offset of its shard and by how many requests for that
  offset went before it. \<^verbatim>\<open>send_request(i)\<close> is what \<^verbatim>\<open>future.result()\<close> returns or
  raises. (In \<^verbatim>\<open>add_embeddings\<close> the request carries the slice of the embeddings as
  well; that changes the payload only.)
\<close>

type_synonym future = "nat \<times> nat"

definition send_request ::
  "transport \<Rightarrow> datum list \<Rightarrow> nat \<Rightarrow> future \<Rightarrow> error + response" where
  "send_request tr data shard_size fut =
     (let data_shard = data_shard data shard_size (fst fut) in
      if size_in_bytes tr data_shard > 8000000 then Inl Exception_ShardTooLarge
      else post tr (fst fut) (snd fut))"

subsection \<open>The coordinator's variables\<close>

text \<open>
  \<open>futures\<close> is the dict \<^verbatim>\<open>futures\<close> (its keys in insertion order; the value of a key
  is its first component), \<open>pbar\<close> counts the calls \<^verbatim>\<open>pbar.update(1)\<close>.
\<close>

record coordinator =
  futures :: "future list"
  failed :: nat
  succeeded :: nat
  errors_504 :: nat
  pbar :: nat

definition coordinator0 :: "nat list \<Rightarrow> coordinator" where
  "coordinator0 starts =
     \<lparr>futures = map (\<lambda>i. (i, 0)) starts, failed = 0, succeeded = 0, errors_504 = 0, pbar = 0\<rparr>"

text \<open>
  How the body of \<^verbatim>\<open>for future in done\<close> can end: by reaching
  \<^verbatim>\<open>del futures[future]\<close>, by \<^verbatim>\<open>continue\<close>, by \<^verbatim>\<open>return\<close>, or by an exception.
\<close>

datatype flow =
    Reaches_del coordinator
  | Continue coordinator
  | Return bool coordinator
  | Raise error coordinator

text \<open>The variables of the coordinator at the end of the body.\<close>

fun state_of :: "flow \<Rightarrow> coordinator" where
  "state_of (Reaches_del c) = c"
| "state_of (Continue c) = c"
| "state_of (Return b c) = c"
| "state_of (Raise e c) = c"

text \<open>\<^verbatim>\<open>failure_fraction = errors_504 / (failed + succeeded + errors_504)\<close>, exactly.\<close>

definition failure_fraction :: "coordinator \<Rightarrow> rat" where
  "failure_fraction c = of_nat (errors_504 c) / of_nat (failed c + succeeded c + errors_504 c)"

text \<open>The three tests inside \<^verbatim>\<open>try\<close>, once \<^verbatim>\<open>response.json()\<close> has returned \<open>j\<close>.\<close>

definition classify_body :: "json \<Rightarrow> coordinator \<Rightarrow> flow" where
  "classify_body j c =
     (case py_in organization_limit j of
        Inl e \<Rightarrow> Raise e c
      | Inr True \<Rightarrow> Return False c
      | Inr False \<Rightarrow>
          (case py_in transaction_lock j of
             Inl e \<Rightarrow> Raise e c
           | Inr True \<Rightarrow> Raise Exception_Indexing c
           | Inr False \<Rightarrow>
               (case py_in id_conflict j of
                  Inl e \<Rightarrow> Raise e c
                | Inr True \<Rightarrow> Continue c
                | Inr False \<Rightarrow> Reaches_del c)))"

text \<open>The handler \<^verbatim>\<open>except (requests.JSONDecodeError, json.decoder.JSONDecodeError)\<close>.\<close>

definition classify_status :: "nat \<Rightarrow> future \<Rightarrow> int \<Rightarrow> coordinator \<Rightarrow> flow" where
  "classify_status shard_size fut status c =
     (if status = 413 then
        Reaches_del (c\<lparr>pbar := pbar c + 1, failed := failed c + shard_size\<rparr>)
      else if status = 504 then
        (let c1 = c\<lparr>errors_504 := errors_504 c + shard_size\<rparr>;
             start_point = fst fut
         in if failed c1 + succeeded c1 + errors_504 c1 = 0 then Raise ZeroDivisionError c1
            else if failure_fraction c1 > 1 / 4 \<and> errors_504 c1 > shard_size * 3
            then Raise RuntimeError_HighLoad c1
            else Reaches_del (c1\<lparr>futures := futures c1 @ [(start_point, Suc (snd fut))]\<rparr>))
      else
        Reaches_del (c\<lparr>failed := failed c + shard_size, pbar := pbar c + 1\<rparr>))"

text \<open>The body of \<^verbatim>\<open>for future in done\<close> up to \<^verbatim>\<open>del futures[future]\<close>.\<close>

definition process_response :: "nat \<Rightarrow> future \<Rightarrow> response \<Rightarrow> coordinator \<Rightarrow> flow" where
  "process_response shard_size fut r c =
     (if status_code r \<noteq> 200 then
        (case json_body r of
           Some j \<Rightarrow> classify_body j c
         | None \<Rightarrow> classify_status shard_size fut (status_code r) c)
      else
        Reaches_del (c\<lparr>succeeded := succeeded c + shard_size, pbar := pbar c + 1\<rparr>))"

text \<open>How the loop \<^verbatim>\<open>while futures\<close> can end.\<close>

datatype loop_exit =
    Exhausted coordinator
  | Returned bool coordinator
  | Raised error coordinator

text \<open>
  \<^verbatim>\<open>while futures: ... for future in done: ...\<close>, one future per step, the step
  counter \<open>tick\<close> asking \<open>sched\<close> for the next one. A future that ends in
  \<^verbatim>\<open>continue\<close> stays in the dict. The value \<open>None\<close> is a loop that never ends.
\<close>

partial_function (option) drain ::
  "transport \<Rightarrow> datum list \<Rightarrow> nat \<Rightarrow> nat \<Rightarrow> coordinator \<Rightarrow> loop_exit option" where
  "drain tr data shard_size tick c =
     (if futures c = [] then Some (Exhausted c)
      else
        (let fut = futures c ! (sched tr tick mod length (futures c)) in
         case send_request tr data shard_size fut of
           Inl e \<Rightarrow> Some (Raised e c)
         | Inr r \<Rightarrow>
             (case process_response shard_size fut r c of
                Reaches_del c' \<Rightarrow>
                  drain tr data shard_size (Suc tick) (c'\<lparr>futures := remove1 fut (futures c')\<rparr>)
              | Continue c' \<Rightarrow> drain tr data shard_size (Suc tick) c'
              | Return b c' \<Rightarrow> Some (Returned b c')
              | Raise e c' \<Rightarrow> Some (Raised e c'))))"

subsection \<open>The two methods\<close>

text \<open>What the logger is told once the loop is over.\<close>

datatype log_event =
    Warning_failed_datums nat
  | Warning_partially_succeeded
  | Info_succeeded
  | Warning_succeeded

text \<open>
  The outcome of a call: the value returned or the exception raised, the variables of
  the coordinator at that moment, and the closing log lines.
\<close>

datatype outcome =
    Result bool coordinator "log_event list"
  | Exception error coordinator

text \<open>
  Everything from \<^verbatim>\<open>shard_size = min(shard_size, 5000)\<close> onwards that the two
  methods share, given the validated data: the progress bar (created here unless the
  caller passed one, \<open>own_pbar\<close>), the submission of all shards, and the loop.
\<close>

definition submit_and_drain ::
  "transport \<Rightarrow> datum list \<Rightarrow> int \<Rightarrow> bool \<Rightarrow> loop_exit option" where
  "submit_and_drain tr data shard_size own_pbar =
     (if shard_size = 0 then
        Some (Raised (if own_pbar then ZeroDivisionError else ValueError_RangeStep)
                     (coordinator0 []))
      else
        drain tr data (nat shard_size) 0
          (coordinator0 (if shard_size < 0 then []
                         else py_range 0 (length data) (nat shard_size))))"

text \<open>
  After the loop, \<^verbatim>\<open>add_text\<close> logs \<^verbatim>\<open>len(failed) * shard_size\<close>, where
  \<^verbatim>\<open>failed\<close> is the integer tally.
\<close>

definition finish_text :: "bool \<Rightarrow> coordinator \<Rightarrow> outcome" where
  "finish_text own_pbar c =
     (if failed c \<noteq> 0 then Exception TypeError_LenOfInt c
      else Result True c (if own_pbar then [Info_succeeded] else []))"

text \<open>\<^verbatim>\<open>add_embeddings\<close> logs the tally itself.\<close>

definition finish_embeddings :: "bool \<Rightarrow> coordinator \<Rightarrow> outcome" where
  "finish_embeddings own_pbar c =
     Result True c
       ((if failed c \<noteq> 0 then [Warning_failed_datums (failed c)] else [])
        @ (if own_pbar
           then [if failed c \<noteq> 0 then Warning_partially_succeeded else Info_succeeded]
           else []))"

definition upload ::
  "(bool \<Rightarrow> coordinator \<Rightarrow> outcome) \<Rightarrow> string \<Rightarrow> validator_env \<Rightarrow> transport \<Rightarrow> project
     \<Rightarrow> datum list \<Rightarrow> int \<Rightarrow> bool \<Rightarrow> bool \<Rightarrow> outcome option" where
  "upload finish wanted venv tr proj data shard_size replace own_pbar =
     (let shard_size = effective_shard_size shard_size in
      if modality proj \<noteq> wanted then Some (Exception ValueError_Modality (coordinator0 []))
      else if insert_update_delete_lock proj
      then Some (Exception Exception_Indexing (coordinator0 []))
      else
        (case validate_and_correct_user_supplied_metadata venv data proj replace of
           (data', Inl e) \<Rightarrow> Some (Exception e (coordinator0 []))
         | (data', Inr _) \<Rightarrow>
             (case submit_and_drain tr data' shard_size own_pbar of
                None \<Rightarrow> None
              | Some (Raised e c) \<Rightarrow> Some (Exception e c)
              | Some (Returned b c) \<Rightarrow> Some (Result b c [])
              | Some (Exhausted c) \<Rightarrow> Some (finish own_pbar c))))"

text \<open>
  \<^verbatim>\<open>AtlasProject.add_text\<close> and \<^verbatim>\<open>AtlasProject.add_embeddings\<close>. \<open>None\<close>: the call
  never returns. (\<^verbatim>\<open>add_text\<close> reads modality and lock from a fresh copy of the
  project's state and \<^verbatim>\<open>add_embeddings\<close> from the object itself; here both are the
  record \<open>proj\<close>. The choice between the initial and the progressive endpoint changes
  the address of the request only.)
\<close>

definition add_text ::
  "validator_env \<Rightarrow> transport \<Rightarrow> project \<Rightarrow> datum list \<Rightarrow> int \<Rightarrow> bool \<Rightarrow> bool
     \<Rightarrow> outcome option" where
  "add_text = upload finish_text ''text''"

definition add_embeddings ::
  "validator_env \<Rightarrow> transport \<Rightarrow> project \<Rightarrow> datum list \<Rightarrow> int \<Rightarrow> bool \<Rightarrow> bool
     \<Rightarrow> outcome option" where
  "add_embeddings = upload finish_embeddings ''embedding''"

subsection \<open>The older client\<close>








section \<open>Concrete inputs\<close>

text \<open>
  A validator environment (default id field \<^verbatim>\<open>id_\<close>, the k-th random draw being k
  itself, no string accepted as a date), two projects, and a batch of three records.
\<close>

definition venv0 :: validator_env where
  "venv0 = \<lparr>default_id_field = ''id_'', urandom16 = (\<lambda>k. word_of_nat k),
            py_repr = (\<lambda>v. ''?''), fromisoformat_ok = (\<lambda>s. False)\<rparr>"

definition text_project :: project where
  "text_project = \<lparr>id_field = ''id_'', modality = ''text'', insert_update_delete_lock = False\<rparr>"

definition embedding_project :: project where
  "embedding_project =
     \<lparr>id_field = ''id_'', modality = ''embedding'', insert_update_delete_lock = False\<rparr>"

definition three_records :: "datum list" where
  "three_records =
     [[(''id_'', VStr ''a''), (''text'', VStr ''one'')],
      [(''id_'', VStr ''b''), (''text'', VStr ''two'')],
      [(''id_'', VStr ''c''), (''text'', VStr ''three'')]]"

text \<open>A server that answers every request with status 200.\<close>

definition transport_200 :: transport where
  "transport_200 = \<lparr>size_in_bytes = (\<lambda>xs. 100 * length xs),
                    post = (\<lambda>i k. Inr \<lparr>status_code = 200, json_body = Some (JStr ''ok'')\<rparr>),
                    sched = (\<lambda>t. t)\<rparr>"

text \<open>
  A record without an id field and with an empty string, a record with another key set,
  and a text project whose id field is not the default one.
\<close>

definition record_without_id :: datum where
  "record_without_id = [(''text'', VStr '''')]"

definition record_other_keys :: datum where
  "record_other_keys = [(''text'', VStr ''two''), (''extra'', VInt 1)]"

definition custom_id_project :: project where
  "custom_id_project =
     \<lparr>id_field = ''doc_id'', modality = ''text'', insert_update_delete_lock = False\<rparr>"

text \<open>
  Servers for the upload loop: \<open>server f\<close> answers the k-th request for the shard at
  offset i with the response \<open>f i k\<close>; the loop meets the futures in the order of the
  dict.
\<close>

definition server :: "(nat \<Rightarrow> nat \<Rightarrow> response) \<Rightarrow> transport" where
  "server f = \<lparr>size_in_bytes = (\<lambda>xs. 100 * length xs), post = (\<lambda>i k. Inr (f i k)),
              sched = (\<lambda>t. 0)\<rparr>"

definition answer_conflict :: "nat \<Rightarrow> nat \<Rightarrow> response" where
  "answer_conflict i k =
     \<lparr>status_code = 409, json_body = Some (JStr ''Insert failed due to ID conflict'')\<rparr>"

definition answer_504_json :: "nat \<Rightarrow> nat \<Rightarrow> response" where
  "answer_504_json i k =
     \<lparr>status_code = 504, json_body = Some (JObj [(''detail'', JStr ''Gateway Time-out'')])\<rparr>"

definition answer_500_json :: "nat \<Rightarrow> nat \<Rightarrow> response" where
  "answer_500_json i k =
     \<lparr>status_code = 500,
      json_body = Some (JObj [(''detail'', JStr ''Internal Server Error'')])\<rparr>"




definition answer_413 :: "nat \<Rightarrow> nat \<Rightarrow> response" where
  "answer_413 i k = \<lparr>status_code = 413, json_body = None\<rparr>"

definition answer_null :: "nat \<Rightarrow> nat \<Rightarrow> response" where
  "answer_null i k = \<lparr>status_code = 500, json_body = Some JNull\<rparr>"

definition answer_other_failure :: "nat \<Rightarrow> nat \<Rightarrow> response" where
  "answer_other_failure i k =
     \<lparr>status_code = 500, json_body = Some (JStr ''Internal Server Error'')\<rparr>"

definition answer_always_504 :: "nat \<Rightarrow> nat \<Rightarrow> response" where
  "answer_always_504 i k = \<lparr>status_code = 504, json_body = None\<rparr>"

definition answer_504_504_200 :: "nat \<Rightarrow> nat \<Rightarrow> response" where
  "answer_504_504_200 i k =
     (if i = 2 \<and> k < 2 then \<lparr>status_code = 504, json_body = None\<rparr>
      else \<lparr>status_code = 200, json_body = Some (JStr ''ok'')\<rparr>)"

section \<open>Properties of the shard plan\<close>

lemma py_range_covers:
  "0 < s \<Longrightarrow> concat (map (\<lambda>i. [i..<min (i + s) n]) (py_range i n s)) = [i..<n]"
proof (induction i n s rule: py_range.induct)
  case (1 i n step)
  show ?case
  proof (cases "n \<le> i")
    case True
    then show ?thesis by (simp add: py_range.simps)
  next
    case False
    with 1 have IH: "concat (map (\<lambda>i. [i..<min (i + step) n]) (py_range (i + step) n step))
        = [i + step..<n]" by simp
    show ?thesis
    proof (cases "i + step \<le> n")
      case True
      then obtain k where k: "n = (i + step) + k" by (auto simp: le_iff_add)
      have "[i..<i + step] @ [i + step..<n] = [i..<n]"
        unfolding k by (rule upt_add_eq_append [symmetric]) simp
      with True False 1(2) IH show ?thesis
        by (subst py_range.simps) (simp add: min_absorb1)
    next
      case b: False
      with False 1(2) IH show ?thesis
        by (subst py_range.simps) simp
    qed
  qed
qed

lemma py_range_bounds: "x \<in> set (py_range i n s) \<Longrightarrow> i \<le> x \<and> x < n"
proof (induction i n s rule: py_range.induct)
  case (1 i n step)
  from 1(2) have ne: "\<not> (step = 0 \<or> n \<le> i)"
    by (subst (asm) py_range.simps) (auto split: if_splits)
  with 1(2) have "x = i \<or> x \<in> set (py_range (i + step) n step)"
    by (subst (asm) py_range.simps) (auto split: if_splits)
  then show ?case
  proof
    assume "x = i" with ne show ?thesis by simp
  next
    assume "x \<in> set (py_range (i + step) n step)"
    with 1(1) ne have "i + step \<le> x \<and> x < n" by blast
    then show ?thesis by simp
  qed
qed

lemma py_range_butlast_full:
  "x \<in> set (butlast (py_range i n s)) \<Longrightarrow> x + s < n"
proof (induction i n s rule: py_range.induct)
  case (1 i n step)
  from 1(2) have ne: "\<not> (step = 0 \<or> n \<le> i)"
    by (subst (asm) py_range.simps) (auto split: if_splits)
  then have unf: "py_range i n step = i # py_range (i + step) n step"
    by (subst py_range.simps) simp
  show ?case
  proof (cases "py_range (i + step) n step = []")
    case True
    with 1(2) unf show ?thesis by simp
  next
    case False
    then have "i + step < n"
      by (subst (asm) py_range.simps) (auto split: if_splits)
    moreover from False 1(2) unf
    have "x = i \<or> x \<in> set (butlast (py_range (i + step) n step))" by auto
    ultimately show ?thesis using 1(1) ne by auto
  qed
qed

lemma shard_plan_unfold:
  "1 \<le> S \<Longrightarrow> shard_plan data S =
     map (\<lambda>i. (i, min (i + nat (min S 5000)) (length data)))
         (py_range 0 (length data) (nat (min S 5000)))"
  unfolding shard_plan_def Let_def effective_shard_size_def data_shard_def
  by (rule map_cong) (auto dest: py_range_bounds)

text \<open>
  Claim C6. For every dataset of N records and every requested shard size S with
  1 \<le> S, with s = min(S, 5000): the ranges of the plan, laid end to end, enumerate
  exactly 0, 1, ..., N-1 in increasing order (so they are disjoint, ordered and their
  union is [0,N)); every range starts at a submitted offset and is a well-formed
  half-open range of length at most s; every range but the last has length exactly s;
  and the slices themselves, concatenated, give back the data.
\<close>

theorem shard_plan_partition:
  assumes "1 \<le> S"
  shows "concat (map (\<lambda>(a, b). [a..<b]) (shard_plan data S)) = [0..<length data]
       \<and> (\<forall>(a, b) \<in> set (shard_plan data S). a < b \<and> b - a \<le> nat (min S 5000))
       \<and> (\<forall>(a, b) \<in> set (butlast (shard_plan data S)). b - a = nat (min S 5000))
       \<and> concat (map (data_shard data (nat (min S 5000)))
                     (py_range 0 (length data) (nat (min S 5000)))) = data"
proof -
  let ?s = "nat (min S 5000)"
  let ?n = "length data"
  from assms have s: "0 < ?s" by simp
  have plan: "shard_plan data S = map (\<lambda>i. (i, min (i + ?s) ?n)) (py_range 0 ?n ?s)"
    using assms by (rule shard_plan_unfold)
  have cover: "concat (map (\<lambda>(a, b). [a..<b]) (shard_plan data S)) = [0..<?n]"
    unfolding plan using py_range_covers [where i = 0 and n = "?n", OF s]
    by (simp only: map_map comp_def split_conv)
  have len: "\<forall>(a, b) \<in> set (shard_plan data S). a < b \<and> b - a \<le> ?s"
    using s by (auto simp: plan dest: py_range_bounds)
  have full: "\<forall>(a, b) \<in> set (butlast (shard_plan data S)). b - a = ?s"
    by (auto simp: plan map_butlast [symmetric] dest: py_range_butlast_full)
  have "concat (map (data_shard data ?s) (py_range 0 ?n ?s))
      = concat (map (\<lambda>i. map ((!) data) [i..<min (i + ?s) ?n]) (py_range 0 ?n ?s))"
  proof -
    have "\<And>i. i \<in> set (py_range 0 ?n ?s) \<Longrightarrow>
        data_shard data ?s i = map ((!) data) [i..<min (i + ?s) ?n]"
      by (auto simp: data_shard_def list_eq_iff_nth_eq min_def dest: py_range_bounds)
    then show ?thesis by (metis (no_types, lifting) map_cong)
  qed
  also have "\<dots> = map ((!) data) (concat (map (\<lambda>i. [i..<min (i + ?s) ?n]) (py_range 0 ?n ?s)))"
    by (simp add: map_concat comp_def)
  also have "\<dots> = data"
    using py_range_covers [where i = 0 and n = "?n", OF s] by (simp add: map_nth)
  finally have slices: "concat (map (data_shard data ?s) (py_range 0 ?n ?s)) = data" .
  from cover len full slices show ?thesis by blast
qed

text \<open>
  The end-to-end example of the specification: twelve records and shard size five give
  the plan 0:5, 5:10, 10:12.
\<close>

theorem shard_plan_partition_witness:
  "shard_plan ''abcdefghijkl'' 5 = [(0, 5), (5, 10), (10, 12)]
   \<and> concat (map (\<lambda>(a, b). [a..<b]) (shard_plan ''abcdefghijkl'' 5))
       = [0..<length ''abcdefghijkl'']
   \<and> concat (map (data_shard ''abcdefghijkl'' (nat (min 5 5000)))
                 (py_range 0 (length ''abcdefghijkl'') (nat (min 5 5000)))) = ''abcdefghijkl''"
proof -
  have h: "(1::int) \<le> 5" by simp
  have e: "shard_plan ''abcdefghijkl'' 5 = [(0, 5), (5, 10), (10, 12)]" by code_simp
  from shard_plan_partition [OF h, of "''abcdefghijkl''"] e show ?thesis by blast
qed

section \<open>Properties of the upload loop\<close>

subsection \<open>Counting the shards\<close>

lemma length_py_range: "0 < s \<Longrightarrow> length (py_range i n s) = (n - i + s - 1) div s"
proof (induction i n s rule: py_range.induct)
  case (1 i n step)
  show ?case
  proof (cases "n \<le> i")
    case True
    with 1(2) show ?thesis by (subst py_range.simps) simp
  next
    case False
    with 1 have IH: "length (py_range (i + step) n step) = (n - (i + step) + step - 1) div step"
      by simp
    have "Suc ((n - (i + step) + step - 1) div step) = (n - i + step - 1) div step"
    proof (cases "i + step \<le> n")
      case True
      then have e: "n - i + step - 1 = (n - (i + step) + step - 1) + step" using 1(2) by arith
      show ?thesis unfolding e using 1(2) by (simp only: div_add_self2)
    next
      case b: False
      with False have "step \<le> n - i + step - 1" "n - i + step - 1 < 2 * step" by simp_all
      then have "(n - i + step - 1) div step = 1"
        by (metis Suc_1 div_nat_eqI mult.commute mult.right_neutral mult_2 nat_mult_1 One_nat_def)
      moreover from b have "(n - (i + step) + step - 1) div step = 0" using 1(2) by simp
      ultimately show ?thesis by simp
    qed
    with False 1(2) IH show ?thesis by (subst py_range.simps) simp
  qed
qed

lemma ceil_times_gt:
  fixes n s :: nat
  assumes "0 < s" "\<not> s dvd n"
  shows "n < ((n + s - 1) div s) * s"
proof -
  define q where "q = n div s"
  define r where "r = n mod s"
  have n: "n = q * s + r" by (simp add: q_def r_def)
  from assms have r: "0 < r" "r < s" by (simp_all add: r_def dvd_eq_mod_eq_0)
  then have "n + s - 1 = (q + 1) * s + (r - 1)" by (simp add: n algebra_simps)
  moreover from r have "r - 1 < s" by simp
  ultimately have "(n + s - 1) div s = q + 1"
    using div_mult_self3 [of s "q + 1" "r - 1"] assms(1) by (simp del: div_mult_self3)
  then have "((n + s - 1) div s) * s = q * s + s" by simp
  with n r show ?thesis by simp
qed

subsection \<open>A call in which every request is answered with status 200\<close>

lemma drain_all_200:
  assumes "\<forall>fut \<in> set (futures c). \<exists>r. send_request tr data s fut = Inr r \<and> status_code r = 200"
  shows "drain tr data s tick c =
     Some (Exhausted (c\<lparr>futures := [], succeeded := succeeded c + s * length (futures c),
                          pbar := pbar c + length (futures c)\<rparr>))"
  using assms
proof (induction "length (futures c)" arbitrary: c tick)
  case 0
  then show ?case by (subst drain.simps) simp
next
  case (Suc n)
  let ?fut = "futures c ! (sched tr tick mod length (futures c))"
  from Suc(2) have ne: "futures c \<noteq> []" by auto
  then have mem: "?fut \<in> set (futures c)" by simp
  with Suc(3) obtain r where r: "send_request tr data s ?fut = Inr r" "status_code r = 200"
    by blast
  let ?c' = "c\<lparr>succeeded := succeeded c + s, pbar := pbar c + 1,
                futures := remove1 ?fut (futures c)\<rparr>"
  have len: "length (futures ?c') = n" using Suc(2) mem by (simp add: length_remove1)
  have "\<forall>fut \<in> set (futures ?c'). \<exists>r. send_request tr data s fut = Inr r \<and> status_code r = 200"
    using Suc(3) by (auto dest: notin_set_remove1)
  from Suc(1) [OF len [symmetric] this, of "Suc tick"]
  have "drain tr data s (Suc tick) ?c' =
     Some (Exhausted (c\<lparr>futures := [], succeeded := succeeded c + s * length (futures c),
                          pbar := pbar c + length (futures c)\<rparr>))"
    using len Suc(2) [symmetric] by (simp add: add.assoc)
  then show ?case using ne r
    by (subst drain.simps) (simp add: Let_def process_response_def)
qed

subsection \<open>A loop all of whose futures end in \<^verbatim>\<open>continue\<close>\<close>

lemma drain_Some_not_all_continue:
  assumes "drain tr data s tick c = Some y"
  shows "\<not> (futures c \<noteq> [] \<and> (\<forall>fut \<in> set (futures c). \<exists>r. send_request tr data s fut = Inr r
             \<and> (\<forall>c'. process_response s fut r c' = Continue c')))"
proof (rule drain.raw_induct [where P = "\<lambda>tr data s tick c y.
     \<not> (futures c \<noteq> [] \<and> (\<forall>fut \<in> set (futures c). \<exists>r. send_request tr data s fut = Inr r
             \<and> (\<forall>c'. process_response s fut r c' = Continue c')))", OF _ assms], goal_cases)
  case (1 f tr data s tick c y)
  show ?case
  proof
    assume A: "futures c \<noteq> [] \<and> (\<forall>fut \<in> set (futures c). \<exists>r. send_request tr data s fut = Inr r
             \<and> (\<forall>c'. process_response s fut r c' = Continue c'))"
    let ?fut = "futures c ! (sched tr tick mod length (futures c))"
    from A have "?fut \<in> set (futures c)" by simp
    with A obtain r where r: "send_request tr data s ?fut = Inr r"
      "\<And>c'. process_response s ?fut r c' = Continue c'" by blast
    from 1(2) A r have "f tr data s (Suc tick) c = Some y" by (simp add: Let_def)
    from 1(1) [OF this] A show False by blast
  qed
qed

lemma drain_all_continue:
  assumes "futures c \<noteq> []"
    and "\<forall>fut \<in> set (futures c). \<exists>r. send_request tr data s fut = Inr r
             \<and> (\<forall>c'. process_response s fut r c' = Continue c')"
  shows "drain tr data s tick c = None"
  using drain_Some_not_all_continue [of tr data s tick c] assms
  by (cases "drain tr data s tick c") auto

subsection \<open>From the loop to the call\<close>

lemma validate_from_length:
  "validate_from env proj replace st data = (data', r) \<Longrightarrow> length data' = length data"
proof (induction data arbitrary: st data' r)
  case Nil
  then show ?case by simp
next
  case (Cons d ds)
  then show ?case
    by (auto split: prod.splits sum.splits)
qed

lemma upload_validated:
  assumes "modality proj = wanted" "\<not> insert_update_delete_lock proj"
    and "validate_and_correct_user_supplied_metadata venv data proj replace = (data', Inr st)"
  shows "upload finish wanted venv tr proj data S replace own_pbar =
     (case submit_and_drain tr data' (min S 5000) own_pbar of
        None \<Rightarrow> None
      | Some (Raised e c) \<Rightarrow> Some (Exception e c)
      | Some (Returned b c) \<Rightarrow> Some (Result b c [])
      | Some (Exhausted c) \<Rightarrow> Some (finish own_pbar c))"
  using assms by (simp add: upload_def effective_shard_size_def)

lemma submit_and_drain_all_200:
  assumes "1 \<le> S"
    and "\<forall>i k. \<exists>r. post tr i k = Inr r \<and> status_code r = 200"
    and "\<forall>i. size_in_bytes tr (data_shard data (nat S) i) \<le> 8000000"
  shows "submit_and_drain tr data S own_pbar =
     Some (Exhausted \<lparr>futures = [], failed = 0,
             succeeded = ((length data + nat S - 1) div nat S) * nat S,
             errors_504 = 0, pbar = (length data + nat S - 1) div nat S\<rparr>)"
proof -
  let ?c = "coordinator0 (py_range 0 (length data) (nat S))"
  have "\<forall>fut. \<exists>r. send_request tr data (nat S) fut = Inr r \<and> status_code r = 200"
    using assms(2,3) by (simp add: send_request_def Let_def not_less [symmetric])
  then have "drain tr data (nat S) 0 ?c =
     Some (Exhausted (?c\<lparr>futures := [], succeeded := succeeded ?c + nat S * length (futures ?c),
                          pbar := pbar ?c + length (futures ?c)\<rparr>))"
    by (intro drain_all_200) blast
  moreover have "length (futures ?c) = (length data + nat S - 1) div nat S"
    using assms(1) by (simp add: coordinator0_def length_py_range)
  ultimately show ?thesis using assms(1)
    by (simp add: submit_and_drain_def coordinator0_def mult.commute)
qed

lemma three_records_valid:
  "validate_and_correct_user_supplied_metadata venv0 three_records text_project True
     = (three_records, Inr \<lparr>metadata_keys = Some [''id_'', ''text''],
                             metadata_date_keys = [], uuids_drawn = 0\<rparr>)"
  "validate_and_correct_user_supplied_metadata venv0 three_records embedding_project True
     = (three_records, Inr \<lparr>metadata_keys = Some [''id_'', ''text''],
                             metadata_date_keys = [], uuids_drawn = 0\<rparr>)"
  by code_simp+

section \<open>The tallies count shard sizes\<close>

text \<open>
  Claim C9. The tallies \<^verbatim>\<open>succeeded\<close> and \<^verbatim>\<open>failed\<close> grow by the effective
  shard size s = min(S, 5000) for each shard, whatever the number of records in the
  shard: a response with status 200 adds s to \<^verbatim>\<open>succeeded\<close>, a response with an
  unparsable body and a status other than 200 and 504 adds s to \<^verbatim>\<open>failed\<close>. So a
  call of \<^verbatim>\<open>add_text\<close> or \<^verbatim>\<open>add_embeddings\<close> on N validated records in which every
  request is answered with status 200 returns true with succeeded = ceil(N/s) * s, and
  this exceeds N whenever s does not divide N.
\<close>

theorem tallies_count_shard_size:
  assumes "(api, m) = (add_text, ''text'') \<or> (api, m) = (add_embeddings, ''embedding'')"
    and "modality proj = m" and "\<not> insert_update_delete_lock proj"
    and "validate_and_correct_user_supplied_metadata venv data proj replace = (data', Inr st)"
    and "1 \<le> S"
    and "\<forall>i k. \<exists>r. post tr i k = Inr r \<and> status_code r = 200"
    and "\<forall>i. size_in_bytes tr (data_shard data' (nat (min S 5000)) i) \<le> 8000000"
  shows "api venv tr proj data S replace own_pbar =
           Some (Result True
                  \<lparr>futures = [], failed = 0,
                   succeeded = ((length data + nat (min S 5000) - 1) div nat (min S 5000))
                                 * nat (min S 5000),
                   errors_504 = 0,
                   pbar = (length data + nat (min S 5000) - 1) div nat (min S 5000)\<rparr>
                  (if own_pbar then [Info_succeeded] else []))
       \<and> (\<not> nat (min S 5000) dvd length data \<longrightarrow>
            length data < ((length data + nat (min S 5000) - 1) div nat (min S 5000))
                            * nat (min S 5000))
       \<and> (\<forall>fut r c. status_code r = 200 \<longrightarrow>
            process_response (nat (min S 5000)) fut r c =
              Reaches_del (c\<lparr>succeeded := succeeded c + nat (min S 5000), pbar := pbar c + 1\<rparr>))
       \<and> (\<forall>fut r c. status_code r \<notin> {200, 504} \<and> json_body r = None \<longrightarrow>
            process_response (nat (min S 5000)) fut r c =
              Reaches_del (c\<lparr>failed := failed c + nat (min S 5000), pbar := pbar c + 1\<rparr>))"
proof -
  let ?s = "nat (min S 5000)"
  from assms(5) have S: "1 \<le> min S 5000" by simp
  have len: "length data' = length data"
    using assms(4) unfolding validate_and_correct_user_supplied_metadata_def
    by (rule validate_from_length)
  have loop: "submit_and_drain tr data' (min S 5000) own_pbar =
     Some (Exhausted \<lparr>futures = [], failed = 0,
             succeeded = ((length data + ?s - 1) div ?s) * ?s,
             errors_504 = 0, pbar = (length data + ?s - 1) div ?s\<rparr>)"
    using submit_and_drain_all_200 [OF S assms(6,7), of own_pbar] by (simp only: len)
  have "upload finish m venv tr proj data S replace own_pbar =
      Some (finish own_pbar \<lparr>futures = [], failed = 0,
             succeeded = ((length data + ?s - 1) div ?s) * ?s,
             errors_504 = 0, pbar = (length data + ?s - 1) div ?s\<rparr>)" for finish
    by (simp add: upload_validated [OF assms(2,3,4)] loop)
  with assms(1) have call: "api venv tr proj data S replace own_pbar =
           Some (Result True
                  \<lparr>futures = [], failed = 0,
                   succeeded = ((length data + ?s - 1) div ?s) * ?s,
                   errors_504 = 0, pbar = (length data + ?s - 1) div ?s\<rparr>
                  (if own_pbar then [Info_succeeded] else []))"
    by (auto simp: add_text_def add_embeddings_def finish_text_def finish_embeddings_def)
  have gt: "\<not> ?s dvd length data \<longrightarrow> length data < ((length data + ?s - 1) div ?s) * ?s"
  proof
    assume "\<not> ?s dvd length data"
    moreover from S have "0 < ?s" by simp
    ultimately show "length data < ((length data + ?s - 1) div ?s) * ?s"
      by (rule ceil_times_gt [rotated])
  qed
  have ok: "\<forall>fut r c. status_code r = 200 \<longrightarrow>
            process_response ?s fut r c =
              Reaches_del (c\<lparr>succeeded := succeeded c + ?s, pbar := pbar c + 1\<rparr>)"
    by (simp add: process_response_def)
  have bad: "\<forall>fut r c. status_code r \<notin> {200, 504} \<and> json_body r = None \<longrightarrow>
            process_response ?s fut r c =
              Reaches_del (c\<lparr>failed := failed c + ?s, pbar := pbar c + 1\<rparr>)"
    by (auto simp: process_response_def classify_status_def)
  from call gt ok bad show ?thesis by blast
qed

text \<open>Three records in shards of two: \<^verbatim>\<open>succeeded\<close> ends at four.\<close>

theorem tallies_count_shard_size_witness:
  "add_text venv0 transport_200 text_project three_records 2 True True =
     Some (Result True \<lparr>futures = [], failed = 0, succeeded = 4, errors_504 = 0, pbar = 2\<rparr>
             [Info_succeeded])
   \<and> add_embeddings venv0 transport_200 embedding_project three_records 2 True True =
     Some (Result True \<lparr>futures = [], failed = 0, succeeded = 4, errors_504 = 0, pbar = 2\<rparr>
             [Info_succeeded])
   \<and> length three_records = 3"
proof -
  have v: "validate_and_correct_user_supplied_metadata venv0 three_records text_project True
      = (three_records, Inr \<lparr>metadata_keys = Some [''id_'', ''text''],
                               metadata_date_keys = [], uuids_drawn = 0\<rparr>)"
    by code_simp
  have ve: "validate_and_correct_user_supplied_metadata venv0 three_records embedding_project True
      = (three_records, Inr \<lparr>metadata_keys = Some [''id_'', ''text''],
                               metadata_date_keys = [], uuids_drawn = 0\<rparr>)"
    by code_simp
  have p: "\<forall>i k. \<exists>r. post transport_200 i k = Inr r \<and> status_code r = 200"
    by (simp add: transport_200_def)
  have z: "\<forall>i. size_in_bytes transport_200 (data_shard three_records (nat (min 2 5000)) i)
             \<le> 8000000"
    by (simp add: transport_200_def data_shard_def three_records_def min_def)
  have n: "length three_records = 3" by (simp add: three_records_def)
  have t: "modality text_project = ''text''" "\<not> insert_update_delete_lock text_project"
    by (simp_all add: text_project_def)
  have e: "modality embedding_project = ''embedding''"
    "\<not> insert_update_delete_lock embedding_project"
    by (simp_all add: embedding_project_def)
  from tallies_count_shard_size [where api = add_text and m = "''text''" and own_pbar = True,
      OF _ t v _ p z]
    tallies_count_shard_size [where api = add_embeddings and m = "''embedding''"
      and own_pbar = True, OF _ e ve _ p z]
    n show ?thesis by simp
qed

section \<open>Properties of the validator\<close>

subsection \<open>The injected identifier\<close>

lemma length_hex32: "length (hex32 w) = 32"
  by (simp add: hex32_def)

lemma length_uuid_str: "length (uuid_str w) = 36"
  by (simp add: uuid_str_def Let_def length_hex32)

lemma length_uuid4: "length (uuid4 env k) = 36"
  by (simp add: uuid4_def length_uuid_str)

lemma uuid4_not_empty: "\<not> is_empty_str (VStr (uuid4 env k))"
  using length_uuid4 [of env k] by auto

lemma getitem_update:
  "getitem (AList.update k v d) k' = (if k' = k then v else getitem d k')"
  by (simp add: getitem_def update_conv')

lemma is_empty_str_getitem:
  "is_empty_str (getitem d k) \<longleftrightarrow> map_of d k = Some (VStr [])"
  by (cases "map_of d k"; simp add: getitem_def) (metis is_empty_str.elims(2) is_empty_str.simps(1))

lemma version_bits: "take_bit 4 (drop_bit 76 (uuid4_int w)) = 4"
  unfolding uuid4_int_def
  by (rule bit_word_eqI) (auto simp: bit_simps)

lemma hex32_nth: "k < 32 \<Longrightarrow> hex32 w ! k = hexdigit (unat (drop_bit (4 * (31 - k)) w))"
  by (simp add: hex32_def)

lemma uuid_str_nth_14: "uuid_str w ! 14 = hex32 w ! 12"
  by (simp add: uuid_str_def Let_def nth_append length_hex32)

lemma uuid_str_dashes:
  "uuid_str w ! 8 = CHR ''-''" "uuid_str w ! 13 = CHR ''-''"
  "uuid_str w ! 18 = CHR ''-''" "uuid_str w ! 23 = CHR ''-''"
  by (simp_all add: uuid_str_def Let_def nth_append length_hex32)

lemma uuid4_version: "uuid4 env k ! 14 = CHR ''4''"
proof -
  let ?w = "uuid4_int (urandom16 env k)"
  have "unat (take_bit 4 (drop_bit 76 ?w)) = take_bit 4 (unat (drop_bit 76 ?w))"
    by (rule unsigned_take_bit_eq)
  also have "\<dots> = unat (drop_bit 76 ?w) mod 2 ^ 4"
    by (rule take_bit_eq_mod)
  finally have "unat (drop_bit 76 ?w) mod 16 = unat (4 :: 128 word)"
    by (simp only: version_bits) simp
  then have "hexdigit (unat (drop_bit 76 ?w)) = CHR ''4''"
    by (simp add: hexdigit_def)
  then show ?thesis
    by (simp add: uuid4_def uuid_str_nth_14 hex32_nth)
qed

subsection \<open>The loop over the keys\<close>

lemma replace_empty_string_cases:
  assumes "replace_empty_string proj replace key d = (d1, r)"
  shows "(d1 = d \<and> (r = None \<longrightarrow> \<not> (modality proj = ''text'' \<and> is_empty_str (getitem d key))))
       \<or> (modality proj = ''text'' \<and> replace \<and> is_empty_str (getitem d key) \<and> r = None
          \<and> d1 = AList.update key (VStr ''null'') d)"
proof (cases "modality proj = ''text''")
  case False
  with assms show ?thesis by (simp add: replace_empty_string_def)
next
  case t: True
  show ?thesis
  proof (cases "is_empty_str (getitem d key)")
    case False
    with assms t show ?thesis by (simp add: replace_empty_string_def)
  next
    case e: True
    show ?thesis
    proof (cases replace)
      case True
      with assms t e show ?thesis by (simp add: replace_empty_string_def)
    next
      case False
      with assms t e show ?thesis by (auto simp: replace_empty_string_def)
    qed
  qed
qed

lemma check_key_cases:
  assumes "check_key env proj replace dk key d = (d1, r)"
  shows "(d1 = d \<and> (r = None \<longrightarrow> \<not> (modality proj = ''text'' \<and> is_empty_str (getitem d key))))
       \<or> (modality proj = ''text'' \<and> replace \<and> is_empty_str (getitem d key)
          \<and> d1 = AList.update key (VStr ''null'') d)"
proof (cases "take 1 key = ''_'' \<or> (key \<in> set dk
              \<and> \<not> fromisoformat_ok env (py_str env (getitem d key)))")
  case True
  with assms have "d1 = d \<and> r \<noteq> None"
    by (auto simp: check_key_def split: if_splits)
  then show ?thesis by auto
next
  case False
  obtain d2 r2 where s: "replace_empty_string proj replace key d = (d2, r2)"
    by (cases "replace_empty_string proj replace key d")
  from assms False s have d: "d1 = d2" and r: "r = None \<longrightarrow> r2 = None"
    by (auto simp: check_key_def split: if_splits option.splits)
  from replace_empty_string_cases [OF s] d r show ?thesis by auto
qed

lemma check_keys_map_of:
  "check_keys env proj replace dk ks d = (d', r) \<Longrightarrow>
     map_of d' k = map_of d k
     \<or> (modality proj = ''text'' \<and> replace \<and> is_empty_str (getitem d k)
        \<and> map_of d' k = Some (VStr ''null''))"
proof (induction ks arbitrary: d)
  case Nil
  then show ?case by simp
next
  case (Cons key keys)
  obtain d1 r1 where s: "check_key env proj replace dk key d = (d1, r1)"
    by (cases "check_key env proj replace dk key d")
  from check_key_cases [OF s]
  have step: "map_of d1 k = map_of d k
     \<or> (modality proj = ''text'' \<and> replace \<and> is_empty_str (getitem d k)
        \<and> map_of d1 k = Some (VStr ''null''))"
    by (auto simp: update_conv' split: if_splits)
  show ?case
  proof (cases r1)
    case (Some e)
    with Cons.prems s have "d' = d1" by simp
    with step show ?thesis by simp
  next
    case None
    with Cons.prems s have "check_keys env proj replace dk keys d1 = (d', r)" by simp
    from Cons.IH [OF this]
    have IH: "map_of d' k = map_of d1 k
     \<or> (modality proj = ''text'' \<and> replace \<and> is_empty_str (getitem d1 k)
        \<and> map_of d' k = Some (VStr ''null''))" .
    from step show ?thesis
    proof
      assume "map_of d1 k = map_of d k"
      then have "getitem d1 k = getitem d k" by (simp add: getitem_def)
      with IH \<open>map_of d1 k = map_of d k\<close> show ?thesis by auto
    next
      assume a: "modality proj = ''text'' \<and> replace \<and> is_empty_str (getitem d k)
        \<and> map_of d1 k = Some (VStr ''null'')"
      then have "\<not> is_empty_str (getitem d1 k)" by (simp add: getitem_def)
      with IH a show ?thesis by auto
    qed
  qed
qed

lemma check_keys_replaces:
  "check_keys env proj replace dk ks d = (d', None) \<Longrightarrow> modality proj = ''text'' \<Longrightarrow>
   k \<in> set ks \<Longrightarrow> is_empty_str (getitem d k) \<Longrightarrow>
   replace \<and> map_of d' k = Some (VStr ''null'')"
proof (induction ks arbitrary: d)
  case Nil
  then show ?case by simp
next
  case (Cons key keys)
  obtain d1 r1 where s: "check_key env proj replace dk key d = (d1, r1)"
    by (cases "check_key env proj replace dk key d")
  with Cons.prems(1) have r1: "r1 = None"
    and rest: "check_keys env proj replace dk keys d1 = (d', None)"
    by (auto split: option.splits)
  note step = check_key_cases [OF s]
  show ?case
  proof (cases "k = key")
    case True
    with step r1 Cons.prems have "replace" and d1: "map_of d1 k = Some (VStr ''null'')"
      by (auto simp: update_conv')
    then have "\<not> is_empty_str (getitem d1 k)" by (simp add: getitem_def)
    with check_keys_map_of [OF rest, of k] d1 have "map_of d' k = Some (VStr ''null'')"
      by auto
    with \<open>replace\<close> show ?thesis by simp
  next
    case False
    with step have "getitem d1 k = getitem d k"
      by (auto simp: getitem_update)
    with False Cons.prems have "k \<in> set keys" "is_empty_str (getitem d1 k)"
      by auto
    from Cons.IH [OF rest Cons.prems(2) this] show ?thesis .
  qed
qed

subsection \<open>One record\<close>

lemma check_id_field_cases:
  "check_id_field env proj st d = Inr (d1, st1) \<Longrightarrow>
     (map_of d (id_field proj) \<noteq> None \<and> d1 = d \<and> st1 = st)
     \<or> (map_of d (id_field proj) = None \<and> id_field proj = default_id_field env
        \<and> d1 = AList.update (id_field proj) (VStr (uuid4 env (uuids_drawn st))) d
        \<and> st1 = st\<lparr>uuids_drawn := uuids_drawn st + 1\<rparr>)"
  by (auto simp: check_id_field_def split: option.splits if_splits)

lemma check_id_field_missing:
  "map_of d (id_field proj) = None \<Longrightarrow>
   check_id_field env proj st d =
     (if id_field proj = default_id_field env
      then Inr (AList.update (id_field proj) (VStr (uuid4 env (uuids_drawn st))) d,
                st\<lparr>uuids_drawn := uuids_drawn st + 1\<rparr>)
      else Inl (KeyError_IdField (id_field proj)))"
  by (simp add: check_id_field_def)

lemma validate_datum_after_id:
  assumes "check_id_field env proj st d = Inr (d1, st1)"
  shows "\<exists>d' r. validate_datum env proj replace st d = (d', r)
           \<and> (\<forall>k. map_of d' k = map_of d1 k
                  \<or> (modality proj = ''text'' \<and> replace \<and> is_empty_str (getitem d1 k)
                     \<and> map_of d' k = Some (VStr ''null'')))
           \<and> ((\<exists>st'. r = Inr st') \<longrightarrow> modality proj = ''text'' \<longrightarrow>
                (\<forall>k. is_empty_str (getitem d1 k) \<longrightarrow>
                       replace \<and> map_of d' k = Some (VStr ''null'')))"
proof -
  let ?st2 = "note_keys env st1 d1"
  show ?thesis
  proof (cases "Some (sort (map fst d1)) \<noteq> metadata_keys ?st2")
    case True
    with assms have "\<exists>e. validate_datum env proj replace st d = (d1, Inl e)"
      by (simp add: validate_datum_def Let_def)
    then show ?thesis by auto
  next
    case False
    obtain d2 r2 where ck: "check_keys env proj replace (metadata_date_keys ?st2)
                              (map fst d1) d1 = (d2, r2)"
      by (cases "check_keys env proj replace (metadata_date_keys ?st2) (map fst d1) d1")
    from assms False ck
    have v: "validate_datum env proj replace st d
               = (d2, case r2 of Some e \<Rightarrow> Inl e | None \<Rightarrow> Inr ?st2)"
      by (simp add: validate_datum_def Let_def split: option.splits)
    have m: "\<forall>k. map_of d2 k = map_of d1 k
                  \<or> (modality proj = ''text'' \<and> replace \<and> is_empty_str (getitem d1 k)
                     \<and> map_of d2 k = Some (VStr ''null''))"
      using check_keys_map_of [OF ck] by blast
    have "modality proj = ''text'' \<longrightarrow>
            (\<forall>k. is_empty_str (getitem d1 k) \<longrightarrow> replace \<and> map_of d2 k = Some (VStr ''null''))"
      if "r2 = None"
    proof (intro impI allI)
      fix k
      assume t: "modality proj = ''text''" and e: "is_empty_str (getitem d1 k)"
      then have "map_of d1 k = Some (VStr [])" by (simp add: is_empty_str_getitem)
      then have "k \<in> set (map fst d1)" by (metis map_of_eq_None_iff option.distinct(1) set_map)
      from check_keys_replaces [OF ck [unfolded that] t this e]
      show "replace \<and> map_of d2 k = Some (VStr ''null'')" .
    qed
    with v m show ?thesis by (cases r2) auto
  qed
qed

lemma validate_datum_injects:
  assumes "map_of d (id_field proj) = None" "id_field proj = default_id_field env"
  shows "\<exists>d' r. validate_datum env proj replace st d = (d', r)
           \<and> map_of d' (id_field proj) = Some (VStr (uuid4 env (uuids_drawn st)))"
proof -
  let ?d1 = "AList.update (id_field proj) (VStr (uuid4 env (uuids_drawn st))) d"
  from assms have c: "check_id_field env proj st d
      = Inr (?d1, st\<lparr>uuids_drawn := uuids_drawn st + 1\<rparr>)"
    by (simp add: check_id_field_missing)
  from validate_datum_after_id [OF c, of replace]
  obtain d' r where v: "validate_datum env proj replace st d = (d', r)"
    and m: "map_of d' (id_field proj) = map_of ?d1 (id_field proj)
                  \<or> (is_empty_str (getitem ?d1 (id_field proj)))"
    by blast
  have "getitem ?d1 (id_field proj) = VStr (uuid4 env (uuids_drawn st))"
    by (simp add: getitem_update)
  with m uuid4_not_empty have "map_of d' (id_field proj) = map_of ?d1 (id_field proj)"
    by auto
  with v show ?thesis by (auto simp: update_conv')
qed

lemma validate_datum_no_id:
  assumes "map_of d (id_field proj) = None" "id_field proj \<noteq> default_id_field env"
  shows "validate_datum env proj replace st d = (d, Inl (KeyError_IdField (id_field proj)))"
  using assms by (simp add: validate_datum_def check_id_field_missing)

lemma validate_datum_success:
  assumes "validate_datum env proj replace st d = (d', Inr st')"
  shows "(map_of d (id_field proj) = None \<longrightarrow>
            id_field proj = default_id_field env
            \<and> map_of d' (id_field proj) = Some (VStr (uuid4 env (uuids_drawn st))))
       \<and> (modality proj = ''text'' \<longrightarrow>
            (\<forall>k. map_of d k = Some (VStr []) \<longrightarrow> replace \<and> map_of d' k = Some (VStr ''null'')))"
proof -
  from assms obtain d1 st1 where c: "check_id_field env proj st d = Inr (d1, st1)"
    by (auto simp: validate_datum_def split: sum.splits)
  from validate_datum_after_id [OF c, of replace] assms
  have ok: "modality proj = ''text'' \<longrightarrow>
                (\<forall>k. is_empty_str (getitem d1 k) \<longrightarrow>
                       replace \<and> map_of d' k = Some (VStr ''null''))"
    by auto
  have id: "map_of d (id_field proj) = None \<longrightarrow>
            id_field proj = default_id_field env
            \<and> map_of d' (id_field proj) = Some (VStr (uuid4 env (uuids_drawn st)))"
  proof
    assume n: "map_of d (id_field proj) = None"
    with check_id_field_cases [OF c] have "id_field proj = default_id_field env" by auto
    with validate_datum_injects [OF n this, of replace st] assms
    show "id_field proj = default_id_field env
            \<and> map_of d' (id_field proj) = Some (VStr (uuid4 env (uuids_drawn st)))"
      by auto
  qed
  have "modality proj = ''text'' \<longrightarrow>
            (\<forall>k. map_of d k = Some (VStr []) \<longrightarrow> replace \<and> map_of d' k = Some (VStr ''null''))"
  proof (intro impI allI)
    fix k
    assume t: "modality proj = ''text''" and e: "map_of d k = Some (VStr [])"
    from check_id_field_cases [OF c] e have "map_of d1 k = Some (VStr [])"
      by (auto simp: update_conv')
    then have "is_empty_str (getitem d1 k)" by (simp add: is_empty_str_getitem)
    with ok t show "replace \<and> map_of d' k = Some (VStr ''null'')" by blast
  qed
  with id show ?thesis by blast
qed

subsection \<open>The loop over the records\<close>

lemma validate_from_append:
  "validate_from env proj replace st pre = (pre', Inr st') \<Longrightarrow>
   validate_from env proj replace st (pre @ rest) =
     (case validate_from env proj replace st' rest of (rest', r) \<Rightarrow> (pre' @ rest', r))"
proof (induction pre arbitrary: st pre')
  case Nil
  then show ?case by simp
next
  case (Cons d ds)
  obtain d1 r1 where v: "validate_datum env proj replace st d = (d1, r1)"
    by (cases "validate_datum env proj replace st d")
  with Cons.prems obtain st1 where r1: "r1 = Inr st1"
    by (cases r1) auto
  obtain ds1 r2 where w: "validate_from env proj replace st1 ds = (ds1, r2)"
    by (cases "validate_from env proj replace st1 ds")
  from Cons.prems v r1 w have "pre' = d1 # ds1" "r2 = Inr st'" by auto
  with Cons.IH [of st1 ds1] w v r1 show ?case
    by (simp split: prod.splits)
qed

lemma validate_from_success_nth:
  "validate_from env proj replace st pre = (pre', Inr st') \<Longrightarrow> j < length pre \<Longrightarrow>
   \<exists>stj stj'. validate_datum env proj replace stj (pre ! j) = (pre' ! j, Inr stj')"
proof (induction pre arbitrary: st pre' j)
  case Nil
  then show ?case by simp
next
  case (Cons d ds)
  obtain d1 r1 where v: "validate_datum env proj replace st d = (d1, r1)"
    by (cases "validate_datum env proj replace st d")
  with Cons.prems obtain st1 where r1: "r1 = Inr st1"
    by (cases r1) auto
  obtain ds1 r2 where w: "validate_from env proj replace st1 ds = (ds1, r2)"
    by (cases "validate_from env proj replace st1 ds")
  from Cons.prems v r1 w have p: "pre' = d1 # ds1" "r2 = Inr st'" by auto
  show ?case
  proof (cases j)
    case 0
    with v r1 p show ?thesis by auto
  next
    case (Suc i)
    with Cons.prems have "i < length ds" by simp
    from Cons.IH [OF w [unfolded p(2)] this] Suc p show ?thesis by simp
  qed
qed

lemma note_keys_uuids [simp]: "uuids_drawn (note_keys env st d) = uuids_drawn st"
  by (simp add: note_keys_def Let_def split: option.splits)

lemma validate_datum_draws:
  assumes "validate_datum env proj replace st d = (d', Inr st')"
  shows "uuids_drawn st' = uuids_drawn st + (if map_of d (id_field proj) = None then 1 else 0)"
proof -
  from assms obtain d1 st1 where c: "check_id_field env proj st d = Inr (d1, st1)"
    by (auto simp: validate_datum_def split: sum.splits)
  with assms have "st' = note_keys env st1 d1"
    by (auto simp: validate_datum_def Let_def split: if_splits prod.splits option.splits)
  with check_id_field_cases [OF c] show ?thesis by auto
qed

lemma validate_from_draws:
  "validate_from env proj replace st pre = (pre', Inr st') \<Longrightarrow>
   uuids_drawn st' = uuids_drawn st
      + length (filter (\<lambda>d. map_of d (id_field proj) = None) pre)"
proof (induction pre arbitrary: st pre')
  case Nil
  then show ?case by simp
next
  case (Cons d ds)
  obtain d1 r1 where v: "validate_datum env proj replace st d = (d1, r1)"
    by (cases "validate_datum env proj replace st d")
  with Cons.prems obtain st1 where r1: "r1 = Inr st1"
    by (cases r1) auto
  obtain ds1 r2 where w: "validate_from env proj replace st1 ds = (ds1, r2)"
    by (cases "validate_from env proj replace st1 ds")
  from Cons.prems v r1 w have "r2 = Inr st'" by auto
  with Cons.IH [of st1 ds1] w validate_datum_draws [OF v [unfolded r1]]
  show ?case by simp
qed

lemma validate_from_failure:
  "validate_from env proj replace st data = (data', Inl e) \<Longrightarrow>
   \<exists>pre d later pre' st' d'. data = pre @ d # later
      \<and> validate_from env proj replace st pre = (pre', Inr st')
      \<and> validate_datum env proj replace st' d = (d', Inl e)
      \<and> data' = pre' @ d' # later"
proof (induction data arbitrary: st data')
  case Nil
  then show ?case by simp
next
  case (Cons d ds)
  obtain d1 r1 where v: "validate_datum env proj replace st d = (d1, r1)"
    by (cases "validate_datum env proj replace st d")
  show ?case
  proof (cases r1)
    case (Inl e1)
    with Cons.prems v have "data' = d1 # ds" "e1 = e" by auto
    with v Inl have "d # ds = [] @ d # ds
      \<and> validate_from env proj replace st [] = ([], Inr st)
      \<and> validate_datum env proj replace st d = (d1, Inl e)
      \<and> data' = [] @ d1 # ds" by simp
    then show ?thesis by blast
  next
    case (Inr st1)
    obtain ds1 r2 where w: "validate_from env proj replace st1 ds = (ds1, r2)"
      by (cases "validate_from env proj replace st1 ds")
    with Cons.prems v Inr have d': "data' = d1 # ds1" and r2: "r2 = Inl e" by auto
    from Cons.IH [OF w [unfolded r2]]
    obtain pre x later pre' st' x' where
      "ds = pre @ x # later" "validate_from env proj replace st1 pre = (pre', Inr st')"
      "validate_datum env proj replace st' x = (x', Inl e)" "ds1 = pre' @ x' # later"
      by blast
    with v Inr d' have "d # ds = (d # pre) @ x # later
      \<and> validate_from env proj replace st (d # pre) = (d1 # pre', Inr st')
      \<and> validate_datum env proj replace st' x = (x', Inl e)
      \<and> data' = (d1 # pre') @ x' # later" by simp
    then show ?thesis by blast
  qed
qed

subsection \<open>Evaluating the validator on the concrete records\<close>

lemma uuid4_nonempty: "uuid4 env k \<noteq> []"
  using length_uuid4 [of env k] by auto

lemma venv0_sel:
  "default_id_field venv0 = ''id_''" "fromisoformat_ok venv0 s = False"
  "py_repr venv0 v = ''?''"
  by (simp_all add: venv0_def)

lemma sort_examples:
  "sort [''text'', ''id_''] = [''id_'', ''text'']"
  "sort [''text'', ''extra'', ''id_''] = [''extra'', ''id_'', ''text'']"
  by code_simp+

lemma record_without_id_valid:
  "validate_and_correct_user_supplied_metadata venv0 [record_without_id] text_project True
  = ([[(''text'', VStr ''null''), (''id_'', VStr (uuid4 venv0 0))]],
     Inr \<lparr>metadata_keys = Some [''id_'', ''text''], metadata_date_keys = [], uuids_drawn = 1\<rparr>)"
  by (simp add: validate_and_correct_user_supplied_metadata_def validate_datum_def
      check_id_field_def record_without_id_def text_project_def vstate0_def note_keys_def
      Let_def check_key_def replace_empty_string_def getitem_def sort_examples
      venv0_sel uuid4_nonempty)

lemma two_records_fail:
  "validate_and_correct_user_supplied_metadata venv0 [record_without_id, record_other_keys]
      text_project True
     = ([[(''text'', VStr ''null''), (''id_'', VStr (uuid4 venv0 0))],
         [(''text'', VStr ''two''), (''extra'', VInt 1), (''id_'', VStr (uuid4 venv0 1))]],
        Inl (ValueError_KeyMismatch [''id_'', ''text''] [''extra'', ''id_'', ''text'']))"
  by (simp add: validate_and_correct_user_supplied_metadata_def validate_datum_def
      check_id_field_def record_without_id_def record_other_keys_def text_project_def
      vstate0_def note_keys_def
      Let_def check_key_def replace_empty_string_def getitem_def sort_examples
      venv0_sel uuid4_nonempty)

subsection \<open>A record without the id field\<close>

text \<open>
  Claim C7. Let the records before some record pass validation, and let that record lack
  the project's id field. If the project's id field is the default id field, the
  validator stores \<^verbatim>\<open>str(uuid.uuid4())\<close> under that field, and the record keeps it to
  the end of the call, whatever happens later; the identifier has 36 characters and the
  version digit 4, and it comes from a draw of the random source that no earlier record
  has used (the number of the draw is the number of earlier records without an id). If
  the project's id field is another one, validation fails at this record: the
  expression \<^verbatim>\<open>datum[project.id_field]\<close> in the message of the error raises
  \<^verbatim>\<open>KeyError\<close> for the missing field, and the list is left as it was up to there.
\<close>

theorem validator_injects_id_or_fails:
  assumes "validate_and_correct_user_supplied_metadata env pre proj replace = (pre', Inr st')"
    and "map_of d (id_field proj) = None"
  shows "(id_field proj = default_id_field env \<longrightarrow>
            (\<exists>d' rest' r.
               validate_and_correct_user_supplied_metadata env (pre @ d # later) proj replace
                 = (pre' @ d' # rest', r)
               \<and> map_of d' (id_field proj) = Some (VStr (uuid4 env (uuids_drawn st')))))
       \<and> (id_field proj \<noteq> default_id_field env \<longrightarrow>
            validate_and_correct_user_supplied_metadata env (pre @ d # later) proj replace
              = (pre' @ d # later, Inl (KeyError_IdField (id_field proj))))
       \<and> length (uuid4 env (uuids_drawn st')) = 36
       \<and> uuid4 env (uuids_drawn st') ! 14 = CHR ''4''
       \<and> uuids_drawn st' = length (filter (\<lambda>x. map_of x (id_field proj) = None) pre)"
proof -
  from assms(1) have pre: "validate_from env proj replace vstate0 pre = (pre', Inr st')"
    by (simp add: validate_and_correct_user_supplied_metadata_def)
  have app: "validate_and_correct_user_supplied_metadata env (pre @ d # later) proj replace
      = (case validate_from env proj replace st' (d # later) of (rest', r) \<Rightarrow> (pre' @ rest', r))"
    unfolding validate_and_correct_user_supplied_metadata_def
    using pre by (rule validate_from_append)
  have inj: "\<exists>d' rest' r.
               validate_and_correct_user_supplied_metadata env (pre @ d # later) proj replace
                 = (pre' @ d' # rest', r)
               \<and> map_of d' (id_field proj) = Some (VStr (uuid4 env (uuids_drawn st')))"
    if "id_field proj = default_id_field env"
  proof -
    from validate_datum_injects [OF assms(2) that, of replace st']
    obtain d' r where v: "validate_datum env proj replace st' d = (d', r)"
      and m: "map_of d' (id_field proj) = Some (VStr (uuid4 env (uuids_drawn st')))"
      by blast
    show ?thesis
    proof (cases r)
      case (Inl e)
      with v app have "validate_and_correct_user_supplied_metadata env (pre @ d # later) proj replace
                 = (pre' @ d' # later, Inl e)" by simp
      with m show ?thesis by blast
    next
      case (Inr st2)
      obtain rest' r2 where "validate_from env proj replace st2 later = (rest', r2)"
        by (cases "validate_from env proj replace st2 later")
      with Inr v app
      have "validate_and_correct_user_supplied_metadata env (pre @ d # later) proj replace
                 = (pre' @ d' # rest', r2)" by simp
      with m show ?thesis by blast
    qed
  qed
  have no: "validate_and_correct_user_supplied_metadata env (pre @ d # later) proj replace
              = (pre' @ d # later, Inl (KeyError_IdField (id_field proj)))"
    if "id_field proj \<noteq> default_id_field env"
    using app validate_datum_no_id [OF assms(2) that, of replace st'] by simp
  have "uuids_drawn st' = length (filter (\<lambda>x. map_of x (id_field proj) = None) pre)"
    using validate_from_draws [OF pre] by (simp add: vstate0_def)
  with inj no length_uuid4 [of env "uuids_drawn st'"] uuid4_version [of env "uuids_drawn st'"]
  show ?thesis by blast
qed

text \<open>
  A single record without an id, in a project with the default id field and in a
  project with the id field \<^verbatim>\<open>doc_id\<close>.
\<close>

theorem validator_injects_id_or_fails_witness:
  "validate_and_correct_user_supplied_metadata venv0 [record_without_id] text_project True
     = ([[(''text'', VStr ''null''), (''id_'', VStr (uuid4 venv0 0))]],
        Inr \<lparr>metadata_keys = Some [''id_'', ''text''], metadata_date_keys = [],
             uuids_drawn = 1\<rparr>)
   \<and> length (uuid4 venv0 0) = 36
   \<and> uuid4 venv0 0 ! 14 = CHR ''4''
   \<and> validate_and_correct_user_supplied_metadata venv0 [record_without_id] custom_id_project True
     = ([record_without_id], Inl (KeyError_IdField ''doc_id''))"
proof -
  have e: "validate_and_correct_user_supplied_metadata venv0 [] proj True = ([], Inr vstate0)"
    for proj
    by (simp add: validate_and_correct_user_supplied_metadata_def)
  have n: "map_of record_without_id (id_field text_project) = None"
    "map_of record_without_id (id_field custom_id_project) = None"
    by (simp_all add: record_without_id_def text_project_def custom_id_project_def)
  have c: "id_field custom_id_project \<noteq> default_id_field venv0"
    "id_field custom_id_project = ''doc_id''"
    by (simp_all add: custom_id_project_def venv0_sel)
  from validator_injects_id_or_fails [OF e n(1), of "[]"]
    validator_injects_id_or_fails [OF e n(2), of "[]"] c record_without_id_valid
  show ?thesis by (simp add: vstate0_def)
qed

subsection \<open>Validation is not atomic\<close>

text \<open>
  Claim C10. When validation raises, it raises at some record k of the batch, and the
  caller's list is then: for every record before k, the record as validation corrected
  it (a record that had no id field now has one, in a project with the default id field;
  in a text project every empty string has become the string \<^verbatim>\<open>null\<close>, the replace
  flag being set); at k, the record as the failing pass left it; after k, the records
  untouched.
\<close>

theorem validation_keeps_mutations:
  assumes "validate_and_correct_user_supplied_metadata env data proj replace = (data', Inl e)"
  shows "\<exists>k < length data.
           length data' = length data
         \<and> (\<exists>st. validate_datum env proj replace st (data ! k) = (data' ! k, Inl e))
         \<and> (\<forall>j < k.
               (map_of (data ! j) (id_field proj) = None \<longrightarrow>
                  id_field proj = default_id_field env
                  \<and> (\<exists>n. map_of (data' ! j) (id_field proj) = Some (VStr (uuid4 env n))))
             \<and> (modality proj = ''text'' \<longrightarrow>
                  (\<forall>key. map_of (data ! j) key = Some (VStr []) \<longrightarrow>
                     replace \<and> map_of (data' ! j) key = Some (VStr ''null''))))
         \<and> (\<forall>j. k < j \<and> j < length data \<longrightarrow> data' ! j = data ! j)"
proof -
  from assms have "validate_from env proj replace vstate0 data = (data', Inl e)"
    by (simp add: validate_and_correct_user_supplied_metadata_def)
  from validate_from_failure [OF this]
  obtain pre d later pre' st' d' where data: "data = pre @ d # later"
    and pre: "validate_from env proj replace vstate0 pre = (pre', Inr st')"
    and d: "validate_datum env proj replace st' d = (d', Inl e)"
    and data': "data' = pre' @ d' # later"
    by blast
  from pre have len: "length pre' = length pre" by (rule validate_from_length)
  let ?k = "length pre"
  have k: "?k < length data" by (simp add: data)
  have l: "length data' = length data" by (simp add: data data' len)
  have at: "\<exists>st. validate_datum env proj replace st (data ! ?k) = (data' ! ?k, Inl e)"
    using d by (auto simp: data data' len nth_append)
  have before: "(map_of (data ! j) (id_field proj) = None \<longrightarrow>
                  id_field proj = default_id_field env
                  \<and> (\<exists>n. map_of (data' ! j) (id_field proj) = Some (VStr (uuid4 env n))))
             \<and> (modality proj = ''text'' \<longrightarrow>
                  (\<forall>key. map_of (data ! j) key = Some (VStr []) \<longrightarrow>
                     replace \<and> map_of (data' ! j) key = Some (VStr ''null'')))"
    if "j < ?k" for j
  proof -
    from validate_from_success_nth [OF pre that]
    obtain stj stj' where "validate_datum env proj replace stj (pre ! j) = (pre' ! j, Inr stj')"
      by blast
    from validate_datum_success [OF this] that len show ?thesis
      by (auto simp: data data' nth_append)
  qed
  have after: "data' ! j = data ! j" if "?k < j \<and> j < length data" for j
    using that by (auto simp: data data' len nth_append nth_Cons split: nat.splits)
  from k l at before after show ?thesis by blast
qed

text \<open>
  Two records, the second with another key set: the exception leaves the first record
  with its new id and with \<^verbatim>\<open>null\<close> for the empty string.
\<close>

theorem validation_keeps_mutations_witness:
  "validate_and_correct_user_supplied_metadata venv0 [record_without_id, record_other_keys]
      text_project True
     = ([[(''text'', VStr ''null''), (''id_'', VStr (uuid4 venv0 0))],
         [(''text'', VStr ''two''), (''extra'', VInt 1), (''id_'', VStr (uuid4 venv0 1))]],
        Inl (ValueError_KeyMismatch [''id_'', ''text''] [''extra'', ''id_'', ''text'']))
   \<and> record_without_id = [(''text'', VStr '''')]"
  using validation_keeps_mutations [OF two_records_fail] two_records_fail
  by (simp add: record_without_id_def)

section \<open>The steps of the upload loop\<close>

lemma failure_fraction_gt_quarter:
  "failure_fraction c > 1 / 4 \<longleftrightarrow> failed c + succeeded c < 3 * errors_504 c"
proof (cases "failed c + succeeded c + errors_504 c = 0")
  case True
  then show ?thesis by (simp add: failure_fraction_def)
next
  case False
  then have "0 < failed c + succeeded c + errors_504 c" by simp
  then have pos: "(0::rat) < of_nat (failed c + succeeded c + errors_504 c)"
    by (simp only: of_nat_0_less_iff)
  have "failure_fraction c > 1 / 4 \<longleftrightarrow>
      (of_nat (failed c + succeeded c + errors_504 c) :: rat) < 4 * of_nat (errors_504 c)"
    unfolding failure_fraction_def using pos by (simp add: field_simps)
  also have "\<dots> \<longleftrightarrow> (of_nat (failed c + succeeded c + errors_504 c) :: rat)
                        < of_nat (4 * errors_504 c)" by simp
  also have "\<dots> \<longleftrightarrow> failed c + succeeded c + errors_504 c < 4 * errors_504 c"
    by (rule of_nat_less_iff)
  also have "\<dots> \<longleftrightarrow> failed c + succeeded c < 3 * errors_504 c" by arith
  finally show ?thesis .
qed

lemma process_response_200:
  "status_code r = 200 \<Longrightarrow>
   process_response s fut r c = Reaches_del (c\<lparr>succeeded := succeeded c + s, pbar := pbar c + 1\<rparr>)"
  by (simp add: process_response_def)

lemma process_response_504:
  assumes "status_code r = 504" "json_body r = None" "0 < s"
  shows "process_response s fut r c =
     (if failure_fraction (c\<lparr>errors_504 := errors_504 c + s\<rparr>) > 1 / 4
         \<and> errors_504 c + s > 3 * s
      then Raise RuntimeError_HighLoad (c\<lparr>errors_504 := errors_504 c + s\<rparr>)
      else Reaches_del (c\<lparr>errors_504 := errors_504 c + s,
                          futures := futures c @ [(fst fut, Suc (snd fut))]\<rparr>))"
  using assms by (simp add: process_response_def classify_status_def Let_def mult.commute)

lemma drain_step:
  assumes "futures c \<noteq> []"
    and "send_request tr data s (futures c ! (sched tr tick mod length (futures c))) = Inr r"
  shows "drain tr data s tick c =
     (case process_response s (futures c ! (sched tr tick mod length (futures c))) r c of
        Reaches_del c' \<Rightarrow>
          drain tr data s (Suc tick)
            (c'\<lparr>futures := remove1 (futures c ! (sched tr tick mod length (futures c)))
                               (futures c')\<rparr>)
      | Continue c' \<Rightarrow> drain tr data s (Suc tick) c'
      | Return b c' \<Rightarrow> Some (Returned b c')
      | Raise e c' \<Rightarrow> Some (Raised e c'))"
  using assms by (subst drain.simps) (simp add: Let_def)

lemma sum_list_single:
  "distinct xs \<Longrightarrow> p \<in> set xs \<Longrightarrow> (\<Sum>i\<leftarrow>xs. if i = p then a else 0) = (a::nat)"
proof (induction xs)
  case Nil
  then show ?case by simp
next
  case (Cons x xs)
  show ?case
  proof (cases "x = p")
    case True
    with Cons.prems have "p \<notin> set xs" by simp
    then have "(\<Sum>i\<leftarrow>xs. if i = p then a else 0) = 0"
      by (induction xs) auto
    with True show ?thesis by simp
  next
    case False
    with Cons show ?thesis by simp
  qed
qed

lemma distinct_py_range: "distinct (py_range i n s)"
proof (induction i n s rule: py_range.induct)
  case (1 i n step)
  show ?case
  proof (cases "step = 0 \<or> n \<le> i")
    case True
    then show ?thesis by (subst py_range.simps) simp
  next
    case False
    with 1 have "distinct (py_range (i + step) n step)" by simp
    moreover have "i \<notin> set (py_range (i + step) n step)"
      using py_range_bounds [of i "i + step" n step] False by auto
    ultimately show ?thesis using False by (subst py_range.simps) simp
  qed
qed

subsection \<open>One shard answered 504 twice, everything else answered 200\<close>

lemma drain_two_retries:
  assumes s: "0 < s"
    and others: "\<forall>fut. fst fut \<noteq> p \<longrightarrow>
                   (\<exists>r. send_request tr data s fut = Inr r \<and> status_code r = 200)"
    and first: "\<forall>k<2. \<exists>r. send_request tr data s (p, k) = Inr r
                          \<and> status_code r = 504 \<and> json_body r = None"
    and third: "\<exists>r. send_request tr data s (p, 2) = Inr r \<and> status_code r = 200"
    and inv: "\<forall>fut \<in> set (futures c). fst fut = p \<longrightarrow> snd fut \<le> 2"
    and bound: "errors_504 c
                 + s * (\<Sum>f\<leftarrow>futures c. if fst f = p then 2 - snd f else 0) \<le> 3 * s"
  shows "drain tr data s tick c =
     Some (Exhausted (c\<lparr>futures := [],
             succeeded := succeeded c + s * length (futures c),
             pbar := pbar c + length (futures c),
             errors_504 := errors_504 c
                 + s * (\<Sum>f\<leftarrow>futures c. if fst f = p then 2 - snd f else 0)\<rparr>))"
proof -
  define w :: "future \<Rightarrow> nat" where "w = (\<lambda>f. if fst f = p then 2 - snd f else 0)"
  have "drain tr data s tick c =
     Some (Exhausted (c\<lparr>futures := [],
             succeeded := succeeded c + s * length (futures c),
             pbar := pbar c + length (futures c),
             errors_504 := errors_504 c + s * sum_list (map w (futures c))\<rparr>))"
    if "\<forall>fut \<in> set (futures c). fst fut = p \<longrightarrow> snd fut \<le> 2"
      and "errors_504 c + s * sum_list (map w (futures c)) \<le> 3 * s"
      and "length (futures c) + sum_list (map w (futures c)) = m"
    for m c tick
    using that
  proof (induction m arbitrary: c tick rule: less_induct)
    case (less m)
    show ?case
    proof (cases "futures c = []")
      case True
      then show ?thesis by (subst drain.simps) simp
    next
      case ne: False
      let ?fut = "futures c ! (sched tr tick mod length (futures c))"
      from ne have mem: "?fut \<in> set (futures c)" by simp
      have sum: "sum_list (map w (futures c)) = w ?fut + sum_list (map w (remove1 ?fut (futures c)))"
        using mem by (rule sum_list_map_remove1)
      have len: "length (remove1 ?fut (futures c)) = length (futures c) - 1"
        using mem by (simp add: length_remove1)
      from ne have lpos: "0 < length (futures c)" by simp
      show ?thesis
      proof (cases "fst ?fut = p \<and> snd ?fut < 2")
        case False
        with less.prems(1) mem have "fst ?fut \<noteq> p \<or> ?fut = (p, 2)"
          by (metis le_neq_implies_less prod.collapse)
        with others third obtain r where r: "send_request tr data s ?fut = Inr r"
          "status_code r = 200" by metis
        from False less.prems(1) mem have w0: "w ?fut = 0" by (auto simp: w_def)
        let ?c' = "c\<lparr>succeeded := succeeded c + s, pbar := pbar c + 1,
                      futures := remove1 ?fut (futures c)\<rparr>"
        have step: "drain tr data s tick c = drain tr data s (Suc tick) ?c'"
          using drain_step [OF ne r(1)] by (simp add: process_response_200 [OF r(2)])
        have "drain tr data s (Suc tick) ?c' =
           Some (Exhausted (?c'\<lparr>futures := [],
             succeeded := succeeded ?c' + s * length (futures ?c'),
             pbar := pbar ?c' + length (futures ?c'),
             errors_504 := errors_504 ?c' + s * sum_list (map w (futures ?c'))\<rparr>))"
        proof (rule less.IH [OF _ _ _ refl])
          have fc: "futures ?c' = remove1 ?fut (futures c)" by simp
          show "length (futures ?c') + sum_list (map w (futures ?c')) < m"
            unfolding fc using less.prems(3) sum w0 len lpos by arith
          show "\<forall>fut\<in>set (futures ?c'). fst fut = p \<longrightarrow> snd fut \<le> 2"
            using less.prems(1) by (auto dest: notin_set_remove1)
          have "sum_list (map w (futures ?c')) = sum_list (map w (futures c))"
            unfolding fc using sum w0 by arith
          moreover have "errors_504 ?c' = errors_504 c" by simp
          ultimately show "errors_504 ?c' + s * sum_list (map w (futures ?c')) \<le> 3 * s"
            using less.prems(2) by (simp only:)
        qed
        also have "\<dots> = Some (Exhausted (c\<lparr>futures := [],
             succeeded := succeeded c + s * length (futures c),
             pbar := pbar c + length (futures c),
             errors_504 := errors_504 c + s * sum_list (map w (futures c))\<rparr>))"
        proof -
          have "s + s * (length (futures c) - 1) = s * length (futures c)"
            using lpos by (cases "length (futures c)") simp_all
          moreover have "Suc (length (futures c) - 1) = length (futures c)"
            using lpos by simp
          moreover have "sum_list (map w (remove1 ?fut (futures c)))
                           = sum_list (map w (futures c))"
            using sum w0 by arith
          ultimately show ?thesis using len by (simp add: add.assoc)
        qed
        finally show ?thesis using step by simp
      next
        case True
        then obtain k where fut: "?fut = (p, k)" and k: "k < 2"
          by (metis prod.collapse)
        with first obtain r where r: "send_request tr data s ?fut = Inr r"
          "status_code r = 504" "json_body r = None" by metis
        from fut k have w1: "w ?fut = 2 - k" "1 \<le> w ?fut" by (simp_all add: w_def)
        have wn: "w (p, Suc k) = w ?fut - 1" using fut k by (simp add: w_def)
        have "1 \<le> sum_list (map w (futures c))" using sum w1(2) by arith
        then have "s * 1 \<le> s * sum_list (map w (futures c))" by (rule mult_le_mono2)
        then have "s \<le> s * sum_list (map w (futures c))" by (simp only: mult_1_right)
        with less.prems(2) have nohigh: "\<not> errors_504 c + s > 3 * s" by arith
        let ?c' = "c\<lparr>errors_504 := errors_504 c + s,
                      futures := remove1 ?fut (futures c) @ [(p, Suc k)]\<rparr>"
        have rm: "remove1 ?fut (futures c @ [(fst ?fut, Suc (snd ?fut))])
                    = remove1 ?fut (futures c) @ [(p, Suc k)]"
          using mem fut by (simp add: remove1_append)
        have step: "drain tr data s tick c = drain tr data s (Suc tick) ?c'"
          using drain_step [OF ne r(1)] nohigh rm
          by (simp add: process_response_504 [OF r(2,3) s])
        have "sum_list (map w (futures ?c'))
                = sum_list (map w (remove1 ?fut (futures c))) + w (p, Suc k)" by simp
        with sum wn w1(2)
        have sum': "sum_list (map w (futures ?c')) + 1 = sum_list (map w (futures c))"
          by arith
        have "drain tr data s (Suc tick) ?c' =
           Some (Exhausted (?c'\<lparr>futures := [],
             succeeded := succeeded ?c' + s * length (futures ?c'),
             pbar := pbar ?c' + length (futures ?c'),
             errors_504 := errors_504 ?c' + s * sum_list (map w (futures ?c'))\<rparr>))"
        proof (rule less.IH [OF _ _ _ refl])
          have l: "length (futures ?c') = length (futures c)" using len lpos by simp
          show "length (futures ?c') + sum_list (map w (futures ?c')) < m"
            unfolding l using less.prems(3) sum' by arith
          show "\<forall>fut\<in>set (futures ?c'). fst fut = p \<longrightarrow> snd fut \<le> 2"
            using less.prems(1) k by (auto dest: notin_set_remove1)
          have "errors_504 ?c' + s * sum_list (map w (futures ?c'))
                 = errors_504 c + s * (sum_list (map w (futures ?c')) + 1)"
            by simp
          with less.prems(2) show "errors_504 ?c' + s * sum_list (map w (futures ?c')) \<le> 3 * s"
            by (simp only: sum')
        qed
        also have "\<dots> = Some (Exhausted (c\<lparr>futures := [],
             succeeded := succeeded c + s * length (futures c),
             pbar := pbar c + length (futures c),
             errors_504 := errors_504 c + s * sum_list (map w (futures c))\<rparr>))"
        proof -
          have "errors_504 c + s + s * sum_list (map w (futures ?c'))
                 = errors_504 c + s * (sum_list (map w (futures ?c')) + 1)"
            by simp
          also have "\<dots> = errors_504 c + s * sum_list (map w (futures c))"
            by (simp only: sum')
          finally have e: "errors_504 c + s + s * sum_list (map w (futures ?c'))
                 = errors_504 c + s * sum_list (map w (futures c))" .
          have l: "length (futures ?c') = length (futures c)" using len lpos by simp
          show ?thesis using e l by simp
        qed
        finally show ?thesis using step by simp
      qed
    qed
  qed
  from this [OF inv bound [folded w_def] refl] show ?thesis by (simp add: w_def)
qed

section \<open>Calls on the concrete servers\<close>

lemma server_sel:
  "post (server f) i k = Inr (f i k)" "sched (server f) t = 0"
  "size_in_bytes (server f) xs = 100 * length xs"
  by (simp_all add: server_def)

lemma send_request_server:
  assumes "length data \<le> 80000"
  shows "send_request (server f) data s fut = Inr (f (fst fut) (snd fut))"
proof -
  have "length (data_shard data s (fst fut)) \<le> length data"
    by (simp add: data_shard_def)
  with assms have "100 * length (data_shard data s (fst fut)) \<le> 8000000" by simp
  then show ?thesis
    by (simp add: send_request_def server_sel Let_def not_less [symmetric])
qed

lemma three_records_small: "length three_records \<le> 80000"
  by (simp add: three_records_def)

lemma three_records_starts: "py_range 0 (length three_records) 2 = [0, 2]"
  by code_simp

lemma add_text_three_records:
  "add_text venv0 tr text_project three_records 2 True True =
     (case drain tr three_records 2 0 (coordinator0 [0, 2]) of
        None \<Rightarrow> None
      | Some (Raised e c) \<Rightarrow> Some (Exception e c)
      | Some (Returned b c) \<Rightarrow> Some (Result b c [])
      | Some (Exhausted c) \<Rightarrow> Some (finish_text True c))"
proof -
  have "modality text_project = ''text''" "\<not> insert_update_delete_lock text_project"
    by (simp_all add: text_project_def)
  from upload_validated [OF this three_records_valid(1)]
  show ?thesis
    by (simp add: add_text_def submit_and_drain_def three_records_starts)
qed

lemma add_embeddings_three_records:
  "add_embeddings venv0 tr embedding_project three_records 2 True True =
     (case drain tr three_records 2 0 (coordinator0 [0, 2]) of
        None \<Rightarrow> None
      | Some (Raised e c) \<Rightarrow> Some (Exception e c)
      | Some (Returned b c) \<Rightarrow> Some (Result b c [])
      | Some (Exhausted c) \<Rightarrow> Some (finish_embeddings True c))"
proof -
  have "modality embedding_project = ''embedding''"
    "\<not> insert_update_delete_lock embedding_project"
    by (simp_all add: embedding_project_def)
  from upload_validated [OF this three_records_valid(2)]
  show ?thesis
    by (simp add: add_embeddings_def submit_and_drain_def three_records_starts)
qed

lemmas eval_server =
  coordinator0_def drain.simps send_request_server [OF three_records_small] server_sel
  process_response_def classify_status_def classify_body_def Let_def
  organization_limit_def transaction_lock_def id_conflict_def

lemma drain_413:
  "drain (server answer_413) three_records 2 0 (coordinator0 [0, 2]) =
     Some (Exhausted \<lparr>futures = [], failed = 4, succeeded = 0, errors_504 = 0, pbar = 2\<rparr>)"
  by (simp add: eval_server answer_413_def)

text \<open>
  Claim C5. After a loop that ran to its end (no fatal abort), both methods are meant to
  log a warning about the failed datums and return true. \<^verbatim>\<open>add_embeddings\<close> does;
  \<^verbatim>\<open>add_text\<close> evaluates \<^verbatim>\<open>len(failed)\<close> on the integer tally and raises
  \<^verbatim>\<open>TypeError\<close> as soon as one shard has failed. Here every request is answered with
  status 413 and a body that is not JSON.
\<close>

theorem add_text_raises_after_failed_shards:
  "add_text venv0 (server answer_413) text_project three_records 2 True True =
     Some (Exception TypeError_LenOfInt
            \<lparr>futures = [], failed = 4, succeeded = 0, errors_504 = 0, pbar = 2\<rparr>)
   \<and> add_embeddings venv0 (server answer_413) embedding_project three_records 2 True True =
     Some (Result True
            \<lparr>futures = [], failed = 4, succeeded = 0, errors_504 = 0, pbar = 2\<rparr>
            [Warning_failed_datums 4, Warning_partially_succeeded])"
  by (simp add: add_text_three_records add_embeddings_three_records drain_413
       finish_text_def finish_embeddings_def)

lemma drain_504_json:
  "drain (server answer_504_json) three_records 2 0 (coordinator0 [0, 2]) =
     Some (Exhausted \<lparr>futures = [], failed = 0, succeeded = 0, errors_504 = 0, pbar = 0\<rparr>)"
  by (simp add: eval_server answer_504_json_def)

lemma drain_500_json:
  "drain (server answer_500_json) three_records 2 0 (coordinator0 [0, 2]) =
     Some (Exhausted \<lparr>futures = [], failed = 0, succeeded = 0, errors_504 = 0, pbar = 0\<rparr>)"
  by (simp add: eval_server answer_500_json_def)


lemma drain_null:
  "drain (server answer_null) three_records 2 0 (coordinator0 [0, 2]) =
     Some (Raised TypeError_NotIterable
       \<lparr>futures = [(0, 0), (2, 0)], failed = 0, succeeded = 0, errors_504 = 0, pbar = 0\<rparr>)"
  by (simp add: eval_server answer_null_def)

section \<open>ID conflicts\<close>

lemma phrases_in_conflict_body:
  "py_in organization_limit (JStr ''Insert failed due to ID conflict'') = Inr False"
  "py_in transaction_lock (JStr ''Insert failed due to ID conflict'') = Inr False"
  "py_in id_conflict (JStr ''Insert failed due to ID conflict'') = Inr True"
  by code_simp+

lemma process_response_parsed:
  assumes "status_code r \<noteq> 200" "json_body r = Some j"
  shows "process_response s fut r c = classify_body j c"
  using assms by (simp add: process_response_def)

lemma state_of_classify_body: "state_of (classify_body j c) = c"
  by (simp add: classify_body_def split: sum.splits bool.splits)

lemma classify_body_conflict:
  assumes "py_in organization_limit j = Inr False" "py_in transaction_lock j = Inr False"
    "py_in id_conflict j = Inr True"
  shows "classify_body j c = Continue c"
  using assms by (simp add: classify_body_def)

text \<open>
  Claim C1, amended. A response with a status other than 200 whose parsed body holds
  the ID-conflict phrase, and neither of the two phrases tested before it, sends the
  loop body into \<^verbatim>\<open>continue\<close>: the shard is counted neither as succeeded nor as failed,
  the 504 tally and the progress indicator stay as they are.
\<close>

theorem id_conflict_changes_no_tally:
  assumes "status_code r \<noteq> 200" and "json_body r = Some j"
    and "py_in organization_limit j = Inr False"
    and "py_in transaction_lock j = Inr False"
    and "py_in id_conflict j = Inr True"
  shows "(\<exists>c'. process_response s fut r c = Continue c')
       \<and> succeeded (state_of (process_response s fut r c)) = succeeded c
       \<and> failed (state_of (process_response s fut r c)) = failed c
       \<and> errors_504 (state_of (process_response s fut r c)) = errors_504 c
       \<and> pbar (state_of (process_response s fut r c)) = pbar c"
  using assms
  by (simp add: process_response_parsed classify_body_conflict)

text \<open>The response of the conflict server, met by the initial coordinator.\<close>

theorem id_conflict_changes_no_tally_witness:
  "succeeded (state_of (process_response 2 (0, 0) (answer_conflict 0 0) (coordinator0 [0, 2]))) = 0
   \<and> failed (state_of (process_response 2 (0, 0) (answer_conflict 0 0) (coordinator0 [0, 2]))) = 0
   \<and> pbar (state_of (process_response 2 (0, 0) (answer_conflict 0 0) (coordinator0 [0, 2]))) = 0"
proof -
  have "status_code (answer_conflict 0 0) \<noteq> 200"
    "json_body (answer_conflict 0 0) = Some (JStr ''Insert failed due to ID conflict'')"
    by (simp_all add: answer_conflict_def)
  from id_conflict_changes_no_tally [OF this phrases_in_conflict_body,
      of 2 "(0, 0)" "coordinator0 [0, 2]"]
  show ?thesis by (simp add: coordinator0_def)
qed

lemma drain_conflict:
  "drain (server answer_conflict) three_records 2 0 (coordinator0 [0, 2]) = None"
proof (rule drain_all_continue)
  show "futures (coordinator0 [0, 2]) \<noteq> []" by (simp add: coordinator0_def)
  have "process_response 2 fut (answer_conflict i k) c' = Continue c'" for fut i k c'
    by (simp add: process_response_parsed [where j = "JStr ''Insert failed due to ID conflict''"]
        answer_conflict_def classify_body_conflict [OF phrases_in_conflict_body])
  then show "\<forall>fut\<in>set (futures (coordinator0 [0, 2])).
       \<exists>r. send_request (server answer_conflict) three_records 2 fut = Inr r \<and>
           (\<forall>c'. process_response 2 fut r c' = Continue c')"
    by (simp add: send_request_server [OF three_records_small])
qed

text \<open>
  Claim C1 as stated fails: when every request is answered with an ID conflict, the call
  does not end with succeeded = N. It does not end at all, since \<^verbatim>\<open>continue\<close> skips
  \<^verbatim>\<open>del futures[future]\<close> and the loop meets the same completed future again.
\<close>

theorem id_conflict_call_never_returns:
  "add_text venv0 (server answer_conflict) text_project three_records 2 True True = None
   \<and> add_embeddings venv0 (server answer_conflict) embedding_project three_records 2 True True
       = None"
  by (simp add: add_text_three_records add_embeddings_three_records drain_conflict)

section \<open>Retries after status 504\<close>

text \<open>
  Claim C2, amended. When the loop takes up a future whose response has status 504 and a
  body that is not JSON, it adds the shard size to the 504 tally and computes the
  failure fraction errors_504 / (failed + succeeded + errors_504). If the fraction is
  above 0.25 and the tally is above three shard sizes, the call raises the high-load
  error, and no future has been added. Otherwise the future is replaced by a new one for
  the same offset, which sends the same slice of the data; nothing in the test depends
  on how often the shard has been sent before.
\<close>

theorem retry_on_504_until_high_load:
  assumes "futures c \<noteq> []"
    and "fut = futures c ! (sched tr tick mod length (futures c))"
    and "send_request tr data s fut = Inr r"
    and "status_code r = 504" and "json_body r = None" and "0 < s"
  shows "drain tr data s tick c =
           (if failure_fraction (c\<lparr>errors_504 := errors_504 c + s\<rparr>) > 1 / 4
               \<and> errors_504 c + s > 3 * s
            then Some (Raised RuntimeError_HighLoad (c\<lparr>errors_504 := errors_504 c + s\<rparr>))
            else drain tr data s (Suc tick)
                   (c\<lparr>errors_504 := errors_504 c + s,
                      futures := remove1 fut (futures c) @ [(fst fut, Suc (snd fut))]\<rparr>))
       \<and> failure_fraction (c\<lparr>errors_504 := errors_504 c + s\<rparr>)
           = of_nat (errors_504 c + s) / of_nat (failed c + succeeded c + (errors_504 c + s))
       \<and> send_request tr data s (fst fut, Suc (snd fut))
           = (if size_in_bytes tr (data_shard data s (fst fut)) > 8000000
              then Inl Exception_ShardTooLarge else post tr (fst fut) (Suc (snd fut)))"
proof -
  from assms(1,2) have mem: "fut \<in> set (futures c)" by simp
  then have rm: "remove1 fut (futures c @ [(fst fut, Suc (snd fut))])
                  = remove1 fut (futures c) @ [(fst fut, Suc (snd fut))]"
    by (simp add: remove1_append)
  have "drain tr data s tick c =
           (if failure_fraction (c\<lparr>errors_504 := errors_504 c + s\<rparr>) > 1 / 4
               \<and> errors_504 c + s > 3 * s
            then Some (Raised RuntimeError_HighLoad (c\<lparr>errors_504 := errors_504 c + s\<rparr>))
            else drain tr data s (Suc tick)
                   (c\<lparr>errors_504 := errors_504 c + s,
                      futures := remove1 fut (futures c) @ [(fst fut, Suc (snd fut))]\<rparr>))"
    using drain_step [OF assms(1) assms(3) [unfolded assms(2)]] rm
    by (simp add: process_response_504 [OF assms(4,5,6)] assms(2) [symmetric])
  then show ?thesis
    by (simp add: failure_fraction_def send_request_def Let_def)
qed

lemma add_text_three_records_5:
  "add_text venv0 tr text_project three_records 5 True True =
     (case drain tr three_records 5 0 (coordinator0 [0]) of
        None \<Rightarrow> None
      | Some (Raised e c) \<Rightarrow> Some (Exception e c)
      | Some (Returned b c) \<Rightarrow> Some (Result b c [])
      | Some (Exhausted c) \<Rightarrow> Some (finish_text True c))"
proof -
  have "modality text_project = ''text''" "\<not> insert_update_delete_lock text_project"
    by (simp_all add: text_project_def)
  moreover have "py_range 0 (length three_records) 5 = [0]" by code_simp
  ultimately show ?thesis
    using upload_validated [OF _ _ three_records_valid(1), of "''text''"]
    by (simp add: add_text_def submit_and_drain_def)
qed

text \<open>
  One shard of five, always answered with status 504: three retries, and the fourth
  response raises the high-load error.
\<close>

theorem retry_on_504_until_high_load_witness:
  "add_text venv0 (server answer_always_504) text_project three_records 5 True True =
     Some (Exception RuntimeError_HighLoad
            \<lparr>futures = [(0, 3)], failed = 0, succeeded = 0, errors_504 = 20, pbar = 0\<rparr>)"
proof -
  let ?tr = "server answer_always_504"
  let ?c = "\<lambda>k. \<lparr>futures = [(0, k)], failed = 0, succeeded = 0, errors_504 = 5 * k, pbar = 0\<rparr>"
  have r: "send_request ?tr three_records 5 (0, k) = Inr (answer_always_504 0 k)" for k
    by (simp add: send_request_server [OF three_records_small])
  have st: "status_code (answer_always_504 0 k) = 504" "json_body (answer_always_504 0 k) = None"
    for k by (simp_all add: answer_always_504_def)
  have step: "drain ?tr three_records 5 k (?c k) =
           (if 2 < k
            then Some (Raised RuntimeError_HighLoad ((?c k)\<lparr>errors_504 := 5 * k + 5\<rparr>))
            else drain ?tr three_records 5 (Suc k) (?c (Suc k)))"
    for k
  proof -
    have ne: "futures (?c k) \<noteq> []" by simp
    have f: "(0, k) = futures (?c k) ! (sched ?tr k mod length (futures (?c k)))"
      by (simp add: server_sel)
    have s: "(0::nat) < 5" by simp
    from retry_on_504_until_high_load [OF ne f r st s, THEN conjunct1,
        unfolded failure_fraction_gt_quarter]
    show ?thesis by (simp add: add.commute)
  qed
  have "drain ?tr three_records 5 0 (?c 0) = drain ?tr three_records 5 (Suc 0) (?c (Suc 0))"
    by (subst step) simp
  also have "\<dots> = drain ?tr three_records 5 (Suc (Suc 0)) (?c (Suc (Suc 0)))"
    by (subst step) simp
  also have "\<dots> = drain ?tr three_records 5 (Suc (Suc (Suc 0))) (?c (Suc (Suc (Suc 0))))"
    by (subst step) simp
  also have "\<dots> = Some (Raised RuntimeError_HighLoad
            \<lparr>futures = [(0, 3)], failed = 0, succeeded = 0, errors_504 = 20, pbar = 0\<rparr>)"
    by (subst step) (simp add: numeral_3_eq_3)
  finally show ?thesis
    by (simp add: add_text_three_records_5 coordinator0_def)
qed

text \<open>
  Claim C2 as stated fails: a response with status 504 whose body parses as JSON is not
  sent again. The shard is dropped, the 504 tally stays at zero and the call returns
  true.
\<close>

theorem json_504_is_not_retried:
  "add_embeddings venv0 (server answer_504_json) embedding_project three_records 2 True True =
     Some (Result True
            \<lparr>futures = [], failed = 0, succeeded = 0, errors_504 = 0, pbar = 0\<rparr>
            [Info_succeeded])"
  by (simp add: add_embeddings_three_records drain_504_json finish_embeddings_def)

section \<open>The progress indicator\<close>

lemma pbar_process_response:
  "pbar (state_of (process_response s fut r c)) =
     pbar c + (if status_code r = 200 \<or> (json_body r = None \<and> status_code r \<noteq> 504)
               then 1 else 0)"
proof (cases "status_code r = 200")
  case True
  then show ?thesis by (simp add: process_response_def)
next
  case False
  show ?thesis
  proof (cases "json_body r")
    case (Some j)
    with False show ?thesis
      by (simp add: process_response_def state_of_classify_body)
  next
    case None
    with False show ?thesis
      by (simp add: process_response_def classify_status_def Let_def)
  qed
qed

lemma submit_and_drain_two_retries:
  assumes S: "1 \<le> S"
    and p: "p \<in> set (py_range 0 (length data) (nat S))"
    and others: "\<forall>i k. i \<noteq> p \<longrightarrow> (\<exists>r. post tr i k = Inr r \<and> status_code r = 200)"
    and first: "\<forall>k<2. \<exists>r. post tr p k = Inr r \<and> status_code r = 504 \<and> json_body r = None"
    and third: "\<exists>r. post tr p 2 = Inr r \<and> status_code r = 200"
    and sizes: "\<forall>i. size_in_bytes tr (data_shard data (nat S) i) \<le> 8000000"
  shows "submit_and_drain tr data S own_pbar =
     Some (Exhausted \<lparr>futures = [], failed = 0,
             succeeded = nat S * length (py_range 0 (length data) (nat S)),
             errors_504 = 2 * nat S,
             pbar = length (py_range 0 (length data) (nat S))\<rparr>)"
proof -
  let ?s = "nat S"
  let ?starts = "py_range 0 (length data) ?s"
  let ?c = "coordinator0 ?starts"
  from S have s: "0 < ?s" by simp
  have send: "send_request tr data ?s fut = post tr (fst fut) (snd fut)" for fut
    using sizes by (simp add: send_request_def Let_def not_less [symmetric])
  have o: "\<forall>fut. fst fut \<noteq> p \<longrightarrow>
                   (\<exists>r. send_request tr data ?s fut = Inr r \<and> status_code r = 200)"
    using others by (simp add: send)
  have f: "\<forall>k<2. \<exists>r. send_request tr data ?s (p, k) = Inr r
                          \<and> status_code r = 504 \<and> json_body r = None"
    using first by (simp add: send)
  have t: "\<exists>r. send_request tr data ?s (p, 2) = Inr r \<and> status_code r = 200"
    using third by (simp add: send)
  have inv: "\<forall>fut \<in> set (futures ?c). fst fut = p \<longrightarrow> snd fut \<le> 2"
    by (auto simp: coordinator0_def)
  have "(\<lambda>x. if x = p then 2 - snd (x, 0::nat) else 0) = (\<lambda>i. if i = p then 2 else (0::nat))"
    by (rule ext) simp
  then have "(\<Sum>f\<leftarrow>futures ?c. if fst f = p then 2 - snd f else 0)
          = (\<Sum>i\<leftarrow>?starts. if i = p then 2 else 0)"
    by (simp add: coordinator0_def comp_def)
  also have "\<dots> = 2" using distinct_py_range p by (rule sum_list_single)
  finally have sum: "(\<Sum>f\<leftarrow>futures ?c. if fst f = p then 2 - snd f else 0) = 2" .
  have bound: "errors_504 ?c
                 + ?s * (\<Sum>f\<leftarrow>futures ?c. if fst f = p then 2 - snd f else 0) \<le> 3 * ?s"
    unfolding sum by (simp add: coordinator0_def)
  from drain_two_retries [OF s o f t inv bound, of 0]
  have "drain tr data ?s 0 ?c =
     Some (Exhausted (?c\<lparr>futures := [],
             succeeded := succeeded ?c + ?s * length (futures ?c),
             pbar := pbar ?c + length (futures ?c),
             errors_504 := errors_504 ?c + ?s * 2\<rparr>))"
    by (simp only: sum)
  then show ?thesis using S
    by (simp add: submit_and_drain_def coordinator0_def)
qed

text \<open>
  Claim C3, amended. The loop body advances the progress indicator by exactly one when
  the status is 200, or when the body is not JSON and the status is neither 200 nor
  504; in every other case (a 504 retry, any response other than 200 whose body parses
  as JSON) it does not advance it. In a call on validated records in which one shard is
  answered with (unparsable) 504 on its first two requests and 200 on the third, and
  every other request with 200, the call returns true, each shard has added the shard
  size to \<^verbatim>\<open>succeeded\<close> once, and the progress indicator has advanced once per shard,
  in whatever order the responses arrive.
\<close>

theorem progress_advances_once:
  assumes "(api, m) = (add_text, ''text'') \<or> (api, m) = (add_embeddings, ''embedding'')"
    and "modality proj = m" and "\<not> insert_update_delete_lock proj"
    and "validate_and_correct_user_supplied_metadata venv data proj replace = (data', Inr st)"
    and "1 \<le> S"
    and "p \<in> set (map fst (shard_plan data S))"
    and "\<forall>i k. i \<noteq> p \<longrightarrow> (\<exists>r. post tr i k = Inr r \<and> status_code r = 200)"
    and "\<forall>k<2. \<exists>r. post tr p k = Inr r \<and> status_code r = 504 \<and> json_body r = None"
    and "\<exists>r. post tr p 2 = Inr r \<and> status_code r = 200"
    and "\<forall>i. size_in_bytes tr (data_shard data' (nat (min S 5000)) i) \<le> 8000000"
  shows "api venv tr proj data S replace own_pbar =
           Some (Result True
                  \<lparr>futures = [], failed = 0,
                   succeeded = nat (min S 5000) * length (shard_plan data S),
                   errors_504 = 2 * nat (min S 5000),
                   pbar = length (shard_plan data S)\<rparr>
                  (if own_pbar then [Info_succeeded] else []))
       \<and> (\<forall>s fut r c.
             pbar (state_of (process_response s fut r c)) =
               pbar c + (if status_code r = 200
                            \<or> (json_body r = None \<and> status_code r \<noteq> 504) then 1 else 0))"
proof -
  let ?s = "nat (min S 5000)"
  from assms(5) have S: "1 \<le> min S 5000" by simp
  have len: "length data' = length data"
    using assms(4) unfolding validate_and_correct_user_supplied_metadata_def
    by (rule validate_from_length)
  have plan: "map fst (shard_plan data S) = py_range 0 (length data) ?s"
    by (simp add: shard_plan_def Let_def effective_shard_size_def comp_def)
  then have n: "length (shard_plan data S) = length (py_range 0 (length data) ?s)"
    by (metis length_map)
  from assms(6) plan have p: "p \<in> set (py_range 0 (length data') ?s)" by (simp add: len)
  have loop: "submit_and_drain tr data' (min S 5000) own_pbar =
     Some (Exhausted \<lparr>futures = [], failed = 0,
             succeeded = ?s * length (shard_plan data S),
             errors_504 = 2 * ?s, pbar = length (shard_plan data S)\<rparr>)"
    using submit_and_drain_two_retries [OF S p assms(7,8,9,10), of own_pbar]
    by (simp only: len n)
  have "upload finish m venv tr proj data S replace own_pbar =
      Some (finish own_pbar \<lparr>futures = [], failed = 0,
             succeeded = ?s * length (shard_plan data S),
             errors_504 = 2 * ?s, pbar = length (shard_plan data S)\<rparr>)" for finish
    by (simp add: upload_validated [OF assms(2,3,4)] loop)
  with assms(1) have "api venv tr proj data S replace own_pbar =
           Some (Result True
                  \<lparr>futures = [], failed = 0,
                   succeeded = ?s * length (shard_plan data S),
                   errors_504 = 2 * ?s, pbar = length (shard_plan data S)\<rparr>
                  (if own_pbar then [Info_succeeded] else []))"
    by (auto simp: add_text_def add_embeddings_def finish_text_def finish_embeddings_def)
  then show ?thesis using pbar_process_response by blast
qed

text \<open>Three records in two shards, the second one answered 504, 504, 200.\<close>

theorem progress_advances_once_witness:
  "add_text venv0 (server answer_504_504_200) text_project three_records 2 True True =
     Some (Result True
            \<lparr>futures = [], failed = 0, succeeded = 4, errors_504 = 4, pbar = 2\<rparr>
            [Info_succeeded])
   \<and> shard_plan three_records 2 = [(0, 2), (2, 3)]"
proof -
  have plan: "shard_plan three_records 2 = [(0, 2), (2, 3)]" by code_simp
  have t: "modality text_project = ''text''" "\<not> insert_update_delete_lock text_project"
    by (simp_all add: text_project_def)
  have p: "2 \<in> set (map fst (shard_plan three_records 2))" by (simp add: plan)
  have o: "\<forall>i k. i \<noteq> 2 \<longrightarrow>
      (\<exists>r. post (server answer_504_504_200) i k = Inr r \<and> status_code r = 200)"
    by (simp add: server_sel answer_504_504_200_def)
  have f: "\<forall>k<2. \<exists>r. post (server answer_504_504_200) 2 k = Inr r
      \<and> status_code r = 504 \<and> json_body r = None"
    by (simp add: server_sel answer_504_504_200_def)
  have h: "\<exists>r. post (server answer_504_504_200) 2 2 = Inr r \<and> status_code r = 200"
    by (simp add: server_sel answer_504_504_200_def)
  have z: "\<forall>i. size_in_bytes (server answer_504_504_200)
                  (data_shard three_records (nat (min 2 5000)) i) \<le> 8000000"
    by (simp add: server_sel data_shard_def three_records_def min_def)
  from progress_advances_once [where api = add_text and m = "''text''" and own_pbar = True,
      OF _ t three_records_valid(1) _ p o f h z] plan
  show ?thesis by simp
qed

text \<open>
  Claim C3 as stated fails: shards answered with status 500 and a JSON body are dropped
  for good, and the progress indicator never moves.
\<close>

theorem parsed_error_never_advances_progress:
  "add_embeddings venv0 (server answer_500_json) embedding_project three_records 2 True True =
     Some (Result True
            \<lparr>futures = [], failed = 0, succeeded = 0, errors_504 = 0, pbar = 0\<rparr>
            [Info_succeeded])"
  by (simp add: add_embeddings_three_records drain_500_json finish_embeddings_def)

section \<open>The organization limit\<close>









section \<open>Parsed bodies without a known phrase\<close>

lemma classify_body_cases:
  assumes "py_in organization_limit j \<noteq> Inr True" "py_in transaction_lock j \<noteq> Inr True"
    "py_in id_conflict j \<noteq> Inr True"
  shows "classify_body j c = Reaches_del c \<or> classify_body j c = Raise TypeError_NotIterable c"
proof (cases j)
  case JNull
  then show ?thesis by (simp add: classify_body_def)
next
  case (JBool b)
  then show ?thesis by (simp add: classify_body_def)
next
  case (JNum n)
  then show ?thesis by (simp add: classify_body_def)
next
  case (JStr x)
  with assms show ?thesis by (simp add: classify_body_def)
next
  case (JArr xs)
  with assms show ?thesis by (simp add: classify_body_def)
next
  case (JObj kvs)
  with assms show ?thesis by (simp add: classify_body_def)
qed

lemma classify_body_none:
  assumes "py_in organization_limit j = Inr False" "py_in transaction_lock j = Inr False"
    "py_in id_conflict j = Inr False"
  shows "classify_body j c = Reaches_del c"
  using assms by (simp add: classify_body_def)

text \<open>
  Claim C8. Let a response have a status other than 200 and a body that parses as JSON,
  in which none of the three phrases is found. Then the loop body changes no variable of
  the coordinator (no tally, no progress, no new future), and the shard is finished:
  either the body reaches \<^verbatim>\<open>del futures[future]\<close>, which is the case whenever the
  three tests return false, or the test itself raises \<^verbatim>\<open>TypeError\<close> and ends the
  call (a body that is a JSON number, boolean or null). The status code plays no part:
  any other response with the same body gives the same result, and the branches for 413
  and 504 belong to the handler that runs only when the body does not parse.
\<close>

theorem parsed_body_without_phrase_is_dropped:
  assumes "status_code r \<noteq> 200" and "json_body r = Some j"
    and "py_in organization_limit j \<noteq> Inr True"
    and "py_in transaction_lock j \<noteq> Inr True"
    and "py_in id_conflict j \<noteq> Inr True"
  shows "(process_response s fut r c = Reaches_del c
            \<or> process_response s fut r c = Raise TypeError_NotIterable c)
       \<and> (py_in organization_limit j = Inr False \<and> py_in transaction_lock j = Inr False
            \<and> py_in id_conflict j = Inr False
            \<longrightarrow> process_response s fut r c = Reaches_del c)
       \<and> (futures c \<noteq> []
            \<and> fut = futures c ! (sched tr tick mod length (futures c))
            \<and> send_request tr data s fut = Inr r
            \<longrightarrow> drain tr data s tick c
                 = (if process_response s fut r c = Reaches_del c
                    then drain tr data s (Suc tick) (c\<lparr>futures := remove1 fut (futures c)\<rparr>)
                    else Some (Raised TypeError_NotIterable c)))
       \<and> (\<forall>r'. status_code r' \<noteq> 200 \<and> json_body r' = Some j
            \<longrightarrow> process_response s fut r' c = process_response s fut r c)
       \<and> (\<forall>r'. status_code r' \<noteq> 200 \<and> json_body r' = None
            \<longrightarrow> process_response s fut r' c = classify_status s fut (status_code r') c)"
proof -
  note pr = process_response_parsed [OF assms(1,2)]
  from classify_body_cases [OF assms(3,4,5)]
  have a: "process_response s fut r c = Reaches_del c
            \<or> process_response s fut r c = Raise TypeError_NotIterable c"
    by (simp add: pr)
  have b: "py_in organization_limit j = Inr False \<and> py_in transaction_lock j = Inr False
            \<and> py_in id_conflict j = Inr False
            \<longrightarrow> process_response s fut r c = Reaches_del c"
    by (simp add: pr classify_body_none)
  have d: "futures c \<noteq> []
            \<and> fut = futures c ! (sched tr tick mod length (futures c))
            \<and> send_request tr data s fut = Inr r
            \<longrightarrow> drain tr data s tick c
                 = (if process_response s fut r c = Reaches_del c
                    then drain tr data s (Suc tick) (c\<lparr>futures := remove1 fut (futures c)\<rparr>)
                    else Some (Raised TypeError_NotIterable c))"
  proof (intro impI, elim conjE)
    assume ne: "futures c \<noteq> []"
      and f: "fut = futures c ! (sched tr tick mod length (futures c))"
      and sr: "send_request tr data s fut = Inr r"
    from a show "drain tr data s tick c
                 = (if process_response s fut r c = Reaches_del c
                    then drain tr data s (Suc tick) (c\<lparr>futures := remove1 fut (futures c)\<rparr>)
                    else Some (Raised TypeError_NotIterable c))"
    proof
      assume x: "process_response s fut r c = Reaches_del c"
      with drain_step [OF ne sr [unfolded f]] show ?thesis by (simp add: f [symmetric])
    next
      assume x: "process_response s fut r c = Raise TypeError_NotIterable c"
      with drain_step [OF ne sr [unfolded f]] show ?thesis by (simp add: f [symmetric])
    qed
  qed
  have e: "\<forall>r'. status_code r' \<noteq> 200 \<and> json_body r' = Some j
            \<longrightarrow> process_response s fut r' c = process_response s fut r c"
    by (simp add: pr process_response_parsed)
  have g: "\<forall>r'. status_code r' \<noteq> 200 \<and> json_body r' = None
            \<longrightarrow> process_response s fut r' c = classify_status s fut (status_code r') c"
    by (simp add: process_response_def)
  from a b d e g show ?thesis by blast
qed

lemma phrases_in_other_failure:
  "py_in organization_limit (JStr ''Internal Server Error'') = Inr False"
  "py_in transaction_lock (JStr ''Internal Server Error'') = Inr False"
  "py_in id_conflict (JStr ''Internal Server Error'') = Inr False"
  by code_simp+

text \<open>A JSON string without any of the phrases, and the JSON value null.\<close>

theorem parsed_body_without_phrase_is_dropped_witness:
  "process_response 2 (0, 0) (answer_other_failure 0 0) (coordinator0 [0, 2])
     = Reaches_del (coordinator0 [0, 2])
   \<and> process_response 2 (0, 0) (answer_null 0 0) (coordinator0 [0, 2])
     = Raise TypeError_NotIterable (coordinator0 [0, 2])"
proof -
  have o: "status_code (answer_other_failure 0 0) \<noteq> 200"
    "json_body (answer_other_failure 0 0) = Some (JStr ''Internal Server Error'')"
    by (simp_all add: answer_other_failure_def)
  have n: "status_code (answer_null 0 0) \<noteq> 200" "json_body (answer_null 0 0) = Some JNull"
    by (simp_all add: answer_null_def)
  have i: "py_in organization_limit (JStr ''Internal Server Error'') \<noteq> Inr True"
    "py_in transaction_lock (JStr ''Internal Server Error'') \<noteq> Inr True"
    "py_in id_conflict (JStr ''Internal Server Error'') \<noteq> Inr True"
    by (simp_all only: phrases_in_other_failure) simp_all
  have u: "py_in organization_limit JNull \<noteq> Inr True"
    "py_in transaction_lock JNull \<noteq> Inr True" "py_in id_conflict JNull \<noteq> Inr True"
    by simp_all
  have x: "process_response 2 (0, 0) (answer_null 0 0) (coordinator0 [0, 2])
             \<noteq> Reaches_del (coordinator0 [0, 2])"
    by (simp add: process_response_def answer_null_def classify_body_def)
  from parsed_body_without_phrase_is_dropped [OF o i, of 2 "(0, 0)" "coordinator0 [0, 2]"]
    parsed_body_without_phrase_is_dropped [OF n u, of 2 "(0, 0)" "coordinator0 [0, 2]"]
    phrases_in_other_failure x
  show ?thesis by blast
qed

end
